theory Spec2Isabelle
  imports Main
begin

section \<open>Results of the embedded operations\<close>

text \<open>
  The vector header (include guard \<^verbatim>\<open>DBN_FAST_VECTOR_HPP\<close>) has no error channel of its own. What the embedding
  records on the left of a sum is where C++ gives no value:
  \<^item> \<open>StaticAssertFailed\<close>: the \<^verbatim>\<open>static_assert(Rows > 0, ...)\<close> of the class template,
  \<^item> \<open>IllFormed\<close>: a call that no overload accepts, or whose instantiation does not compile,
  \<^item> \<open>OutOfBounds\<close>: an element access with \<^verbatim>\<open>i >= rows\<close> (the \<^verbatim>\<open>dbn_assert\<close> of a
    debug build; undefined behaviour otherwise),
  \<^item> \<open>DivisionByZero\<close>: a division of \<^verbatim>\<open>T\<close> by zero, which the code performs unchecked
    and for which the language defines no result,
  \<^item> \<open>DanglingReference\<close>: a reference to a vector that does not exist in the store.
  The first two belong to compile time, the others to run time.
\<close>

datatype error =
  StaticAssertFailed | IllFormed | OutOfBounds | DivisionByZero | DanglingReference

fun compile_time :: "error \<Rightarrow> bool" where
  "compile_time StaticAssertFailed = True"
| "compile_time IllFormed = True"
| "compile_time OutOfBounds = False"
| "compile_time DivisionByZero = False"
| "compile_time DanglingReference = False"

text \<open>Sequencing: the second computation runs on the value of the first, if it has one.\<close>

fun and_then :: "error + 'a \<Rightarrow> ('a \<Rightarrow> error + 'b) \<Rightarrow> error + 'b" where
  "and_then (Inl e) f = Inl e"
| "and_then (Inr x) f = f x"

section \<open>The store: one \<^verbatim>\<open>std::array<T, Rows>\<close> per live vector\<close>

text \<open>
  The classes are those of \<^verbatim>\<open>src/include/dll/neural/recurrent_layer_impl.hpp\<close>, from line 244 on.
  A \<^verbatim>\<open>fast_vector<T, Rows>\<close> owns \<^verbatim>\<open>std::array<T, Rows> _data\<close>. Expressions hold
  vectors by reference, so vectors are named and live in a store; the list bound
  to a name is \<^verbatim>\<open>_data\<close>, and its length is the template argument \<^verbatim>\<open>Rows\<close>.
  The element type \<^verbatim>\<open>T\<close> is a type variable; its \<^verbatim>\<open>+ - * /\<close> are the operations of the
  type that instantiates it, and overflow of a machine type is outside the model.
\<close>

type_synonym vname = nat

type_synonym 'a store = "vname \<rightharpoonup> 'a list"

text \<open>\<^verbatim>\<open>rows\<close> / \<^verbatim>\<open>size()\<close>: the compile-time length.\<close>

definition rows :: "'a store \<Rightarrow> vname \<Rightarrow> error + nat" where
  "rows s this = (case s this of None \<Rightarrow> Inl DanglingReference | Some d \<Rightarrow> Inr (length d))"

definition fv_size :: "'a store \<Rightarrow> vname \<Rightarrow> error + nat" where
  "fv_size s this = rows s this"

text \<open>Raw accesses \<^verbatim>\<open>_data[i]\<close> on the array (no assertion in the source).\<close>

definition data_get :: "'a store \<Rightarrow> vname \<Rightarrow> nat \<Rightarrow> error + 'a" where
  "data_get s this i =
     (case s this of
        None \<Rightarrow> Inl DanglingReference
      | Some d \<Rightarrow> if i < length d then Inr (d ! i) else Inl OutOfBounds)"

definition data_set :: "'a store \<Rightarrow> vname \<Rightarrow> nat \<Rightarrow> 'a \<Rightarrow> error + 'a store" where
  "data_set s this i v =
     (case s this of
        None \<Rightarrow> Inl DanglingReference
      | Some d \<Rightarrow> if i < length d then Inr (s(this \<mapsto> d[i := v])) else Inl OutOfBounds)"

text \<open>
  Modelled from the spec: \<^verbatim>\<open>dbn_assert\<close> is a macro of \<^verbatim>\<open>assert.hpp\<close>, which is not among
  the sources. The specification describes it as an assertion that is active in debug
  builds and reports an out-of-bounds condition; a failed assertion yields no value.
\<close>

definition dbn_assert :: "bool \<Rightarrow> error \<Rightarrow> error + unit" where
  "dbn_assert c e = (if c then Inr () else Inl e)"

text \<open>\<^verbatim>\<open>const T& operator[](size_t i) const\<close> and \<^verbatim>\<open>operator()(size_t i) const\<close>.\<close>

definition op_index :: "'a store \<Rightarrow> vname \<Rightarrow> nat \<Rightarrow> error + 'a" where
  "op_index s this i =
     and_then (rows s this) (\<lambda>n.
     and_then (dbn_assert (i < n) OutOfBounds) (\<lambda>_.
     data_get s this i))"

definition op_call :: "'a store \<Rightarrow> vname \<Rightarrow> nat \<Rightarrow> error + 'a" where
  "op_call s this i =
     and_then (rows s this) (\<lambda>n.
     and_then (dbn_assert (i < n) OutOfBounds) (\<lambda>_.
     data_get s this i))"

text \<open>\<^verbatim>\<open>T& operator[](size_t i)\<close> used as the target of an assignment: \<^verbatim>\<open>a[i] = v\<close>.\<close>

definition op_index_write :: "'a store \<Rightarrow> vname \<Rightarrow> nat \<Rightarrow> 'a \<Rightarrow> error + 'a store" where
  "op_index_write s this i v =
     and_then (rows s this) (\<lambda>n.
     and_then (dbn_assert (i < n) OutOfBounds) (\<lambda>_.
     data_set s this i v))"

section \<open>Binary operators and the scalar wrapper\<close>

datatype binary_op = plus_binary_op | minus_binary_op | mul_binary_op | div_binary_op

text \<open>
  Division of \<^verbatim>\<open>T\<close>: the source writes \<^verbatim>\<open>lhs / rhs\<close> with no test of \<^verbatim>\<open>rhs\<close>. HOL's
  own division is total (\<open>x div 0 = 0\<close>), so the case the language leaves undefined
  is written out. This is the division of an integer type; a floating type has a value
  at zero, and \<open>apply_with\<close> below leaves the division open for that reason.
\<close>

definition divide_T :: "'a::{zero,divide} \<Rightarrow> 'a \<Rightarrow> error + 'a" where
  "divide_T l r = (if r = 0 then Inl DivisionByZero else Inr (l div r))"

fun apply_op :: "binary_op \<Rightarrow> 'a::{zero,plus,minus,times,divide} \<Rightarrow> 'a \<Rightarrow> error + 'a" where
  "apply_op plus_binary_op lhs rhs = Inr (lhs + rhs)"
| "apply_op minus_binary_op lhs rhs = Inr (lhs - rhs)"
| "apply_op mul_binary_op lhs rhs = Inr (lhs * rhs)"
| "apply_op div_binary_op lhs rhs = divide_T lhs rhs"

text \<open>\<^verbatim>\<open>scalar<T>::operator[](size_t)\<close>: the index is not even named.\<close>

definition scalar_index :: "'a \<Rightarrow> nat \<Rightarrow> 'a" where
  "scalar_index v i = v"

section \<open>Expression trees\<close>

text \<open>
  A \<^verbatim>\<open>fast_vector_expr<T, LeftExpr, BinaryOp, RightExpr>\<close> stores \<^verbatim>\<open>_lhs\<close> and \<^verbatim>\<open>_rhs\<close>.
  An operand that can be indexed is a vector (held by reference), a \<^verbatim>\<open>scalar<T>\<close>
  or another expression.
\<close>

datatype 'a operand = Vector vname | Scalar 'a | Nested "'a fast_vector_expr"
and 'a fast_vector_expr = Expr "'a operand" binary_op "'a operand"

text \<open>
  \<^verbatim>\<open>fast_vector_expr::operator[]\<close>: \<^verbatim>\<open>BinaryOp::apply(lhs()[i], rhs()[i])\<close>. C++ leaves the
  order of the two argument evaluations open; both are pure reads, and the model
  takes the left one first.
\<close>

fun index_operand :: "'a::{zero,plus,minus,times,divide} store \<Rightarrow> 'a operand \<Rightarrow> nat \<Rightarrow> error + 'a"
and index_expr :: "'a store \<Rightarrow> 'a fast_vector_expr \<Rightarrow> nat \<Rightarrow> error + 'a" where
  "index_operand s (Vector v) i = op_index s v i"
| "index_operand s (Scalar x) i = Inr (scalar_index x i)"
| "index_operand s (Nested e) i = index_expr s e i"
| "index_expr s (Expr l bop r) i =
     and_then (index_operand s l i) (\<lambda>x.
     and_then (index_operand s r i) (\<lambda>y.
     apply_op bop x y))"

text \<open>The vectors an operand refers to.\<close>

fun vectors_of :: "'a operand \<Rightarrow> vname set"
and vectors_of_expr :: "'a fast_vector_expr \<Rightarrow> vname set" where
  "vectors_of (Vector v) = {v}"
| "vectors_of (Scalar x) = {}"
| "vectors_of (Nested e) = vectors_of_expr e"
| "vectors_of_expr (Expr l bop r) = vectors_of l \<union> vectors_of r"

subsection \<open>The division of \<^verbatim>\<open>T\<close> as a parameter\<close>

text \<open>
  The operators and the evaluation of an expression with the division of \<^verbatim>\<open>T\<close> left open:
  \<open>dv\<close> is whatever \<^verbatim>\<open>lhs / rhs\<close> does for the element type, at zero as elsewhere (no value
  for an integer type, a value for a floating type). The bodies are those of the four
  \<^verbatim>\<open>apply\<close> functions and of \<^verbatim>\<open>fast_vector_expr::operator[]\<close>.
\<close>

fun apply_with :: "('a \<Rightarrow> 'a \<Rightarrow> error + 'a) \<Rightarrow> binary_op \<Rightarrow> 'a::{plus,minus,times} \<Rightarrow> 'a \<Rightarrow> error + 'a" where
  "apply_with dv plus_binary_op lhs rhs = Inr (lhs + rhs)"
| "apply_with dv minus_binary_op lhs rhs = Inr (lhs - rhs)"
| "apply_with dv mul_binary_op lhs rhs = Inr (lhs * rhs)"
| "apply_with dv div_binary_op lhs rhs = dv lhs rhs"

fun index_operand_with :: "('a \<Rightarrow> 'a \<Rightarrow> error + 'a) \<Rightarrow> 'a::{plus,minus,times} store \<Rightarrow> 'a operand \<Rightarrow> nat \<Rightarrow> error + 'a"
and index_expr_with :: "('a \<Rightarrow> 'a \<Rightarrow> error + 'a) \<Rightarrow> 'a store \<Rightarrow> 'a fast_vector_expr \<Rightarrow> nat \<Rightarrow> error + 'a" where
  "index_operand_with dv s (Vector v) i = op_index s v i"
| "index_operand_with dv s (Scalar x) i = Inr (scalar_index x i)"
| "index_operand_with dv s (Nested e) i = index_expr_with dv s e i"
| "index_expr_with dv s (Expr l bop r) i =
     and_then (index_operand_with dv s l i) (\<lambda>x.
     and_then (index_operand_with dv s r i) (\<lambda>y.
     apply_with dv bop x y))"

subsection \<open>Arithmetic producers\<close>

text \<open>
  The producers of \<^verbatim>\<open>fast_vector\<close> bind \<^verbatim>\<open>*this\<close> by reference; those taking \<^verbatim>\<open>T re\<close>
  wrap it into a \<^verbatim>\<open>scalar<T>\<close>. They only build the node.
\<close>

definition op_plus :: "vname \<Rightarrow> 'a operand \<Rightarrow> 'a fast_vector_expr" where
  "op_plus this re = Expr (Vector this) plus_binary_op re"

definition op_minus :: "vname \<Rightarrow> 'a operand \<Rightarrow> 'a fast_vector_expr" where
  "op_minus this re = Expr (Vector this) minus_binary_op re"

definition op_mul_scalar :: "vname \<Rightarrow> 'a \<Rightarrow> 'a fast_vector_expr" where
  "op_mul_scalar this re = Expr (Vector this) mul_binary_op (Scalar re)"

definition op_mul :: "vname \<Rightarrow> 'a operand \<Rightarrow> 'a fast_vector_expr" where
  "op_mul this re = Expr (Vector this) mul_binary_op re"

definition op_div_scalar :: "vname \<Rightarrow> 'a \<Rightarrow> 'a fast_vector_expr" where
  "op_div_scalar this re = Expr (Vector this) div_binary_op (Scalar re)"

definition op_div :: "vname \<Rightarrow> 'a operand \<Rightarrow> 'a fast_vector_expr" where
  "op_div this re = Expr (Vector this) div_binary_op re"

text \<open>The same producers on \<^verbatim>\<open>fast_vector_expr\<close>: the node itself is the left operand.\<close>

definition expr_plus :: "'a fast_vector_expr \<Rightarrow> 'a operand \<Rightarrow> 'a fast_vector_expr" where
  "expr_plus this re = Expr (Nested this) plus_binary_op re"

definition expr_minus :: "'a fast_vector_expr \<Rightarrow> 'a operand \<Rightarrow> 'a fast_vector_expr" where
  "expr_minus this re = Expr (Nested this) minus_binary_op re"

definition expr_mul_scalar :: "'a fast_vector_expr \<Rightarrow> 'a \<Rightarrow> 'a fast_vector_expr" where
  "expr_mul_scalar this re = Expr (Nested this) mul_binary_op (Scalar re)"

definition expr_mul :: "'a fast_vector_expr \<Rightarrow> 'a operand \<Rightarrow> 'a fast_vector_expr" where
  "expr_mul this re = Expr (Nested this) mul_binary_op re"

definition expr_div_scalar :: "'a fast_vector_expr \<Rightarrow> 'a \<Rightarrow> 'a fast_vector_expr" where
  "expr_div_scalar this re = Expr (Nested this) div_binary_op (Scalar re)"

definition expr_div :: "'a fast_vector_expr \<Rightarrow> 'a operand \<Rightarrow> 'a fast_vector_expr" where
  "expr_div this re = Expr (Nested this) div_binary_op re"

section \<open>Loops\<close>

text \<open>
  Every loop of the header has the shape
  \<^verbatim>\<open>for(std::size_t i = 0; i < Rows; ++i){ body }\<close>; the body reads and writes the store.
\<close>

function for_loop :: "nat \<Rightarrow> nat \<Rightarrow> (nat \<Rightarrow> 'st \<Rightarrow> error + 'st) \<Rightarrow> 'st \<Rightarrow> error + 'st" where
  "for_loop i n body s =
     (if i < n then and_then (body i s) (for_loop (Suc i) n body) else Inr s)"
  by pat_completeness auto
termination
  by (relation "measure (\<lambda>(i, n, body, s). n - i)") auto

declare for_loop.simps [simp del]

section \<open>Arguments passed by \<^verbatim>\<open>const T&\<close>\<close>

text \<open>
  \<^verbatim>\<open>operator=(const T&)\<close> and \<^verbatim>\<open>operator/=(const T&)\<close> take their value by reference and
  read it in every iteration. The reference is bound to an object of its own
  (a literal, a local) or to an element of a vector, which may be the vector
  that is being written.
\<close>

datatype 'a cref = Temp 'a | Elem vname nat

fun deref :: "'a store \<Rightarrow> 'a cref \<Rightarrow> error + 'a" where
  "deref s (Temp v) = Inr v"
| "deref s (Elem b k) = data_get s b k"

text \<open>
  The right-hand side of a compound update at a call site: a plain \<^verbatim>\<open>T\<close>, or an
  operand that has \<^verbatim>\<open>operator[]\<close>.
\<close>

datatype 'a arg = Plain "'a cref" | Indexable "'a operand"

section \<open>Constructors\<close>

text \<open>
  Instantiating the class runs \<^verbatim>\<open>static_assert(Rows > 0, ...)\<close>. A fresh \<^verbatim>\<open>_data\<close> is not
  initialised: its contents are whatever \<open>junk\<close> the memory holds.
\<close>

definition allocate :: "nat \<Rightarrow> (nat \<Rightarrow> 'a) \<Rightarrow> 'a store \<Rightarrow> vname \<Rightarrow> error + 'a store" where
  "allocate Rows junk s this =
     (if 0 < Rows then Inr (s(this \<mapsto> map junk [0..<Rows])) else Inl StaticAssertFailed)"

text \<open>\<^verbatim>\<open>std::fill(_data.begin(), _data.end(), value)\<close>: assigns \<^verbatim>\<open>value\<close> to each element in turn.\<close>

definition std_fill :: "'a store \<Rightarrow> vname \<Rightarrow> 'a cref \<Rightarrow> error + 'a store" where
  "std_fill s this val =
     and_then (rows s this) (\<lambda>n.
     for_loop 0 n (\<lambda>i t. and_then (deref t val) (\<lambda>v. data_set t this i v)) s)"

text \<open>The loop shared by the constructor from an expression and the assignment of one.\<close>

definition materialize :: "'a::{zero,plus,minus,times,divide} store \<Rightarrow> vname \<Rightarrow> 'a fast_vector_expr \<Rightarrow> error + 'a store" where
  "materialize s this e =
     and_then (rows s this) (\<lambda>n.
     for_loop 0 n (\<lambda>i t. and_then (index_expr t e i) (\<lambda>v. data_set t this i v)) s)"

text \<open>\<^verbatim>\<open>fast_vector()\<close>\<close>

definition fast_vector_default :: "nat \<Rightarrow> (nat \<Rightarrow> 'a) \<Rightarrow> 'a store \<Rightarrow> vname \<Rightarrow> error + 'a store" where
  "fast_vector_default Rows junk s this = allocate Rows junk s this"

text \<open>\<^verbatim>\<open>fast_vector(const T& value)\<close>\<close>

definition fast_vector_fill :: "nat \<Rightarrow> (nat \<Rightarrow> 'a) \<Rightarrow> 'a store \<Rightarrow> vname \<Rightarrow> 'a cref \<Rightarrow> error + 'a store" where
  "fast_vector_fill Rows junk s this val =
     and_then (allocate Rows junk s this) (\<lambda>t. std_fill t this val)"

text \<open>\<^verbatim>\<open>fast_vector(fast_vector_expr<T, LE, Op, RE>&& e)\<close>\<close>

definition fast_vector_from_expr :: "nat \<Rightarrow> (nat \<Rightarrow> 'a) \<Rightarrow> 'a::{zero,plus,minus,times,divide} store \<Rightarrow> vname \<Rightarrow> 'a fast_vector_expr \<Rightarrow> error + 'a store" where
  "fast_vector_from_expr Rows junk s this e =
     and_then (allocate Rows junk s this) (\<lambda>t. materialize t this e)"

text \<open>
  \<^verbatim>\<open>fast_vector(fast_vector&& rhs) = default\<close>: the argument has the type of the new
  vector, so the same \<^verbatim>\<open>Rows\<close>; each element is moved, and \<open>residue\<close> is what a
  moved-from \<^verbatim>\<open>T\<close> holds (the identity for arithmetic types).
\<close>

definition fast_vector_move :: "nat \<Rightarrow> ('a \<Rightarrow> 'a) \<Rightarrow> 'a store \<Rightarrow> vname \<Rightarrow> vname \<Rightarrow> error + 'a store" where
  "fast_vector_move Rows residue s this rhs =
     (if 0 < Rows then
        (case s rhs of
           None \<Rightarrow> Inl DanglingReference
         | Some d \<Rightarrow>
             if length d = Rows then Inr ((s(rhs \<mapsto> map residue d))(this \<mapsto> d))
             else Inl IllFormed)
      else Inl StaticAssertFailed)"

section \<open>Assignments and compound updates\<close>

text \<open>\<^verbatim>\<open>fast_vector& operator=(fast_vector_expr<T, LE, Op, RE>&& e)\<close>\<close>

definition op_assign_expr :: "'a::{zero,plus,minus,times,divide} store \<Rightarrow> vname \<Rightarrow> 'a fast_vector_expr \<Rightarrow> error + vname \<times> 'a store" where
  "op_assign_expr s this e = and_then (materialize s this e) (\<lambda>t. Inr (this, t))"

text \<open>\<^verbatim>\<open>fast_vector& operator=(fast_vector&& rhs) = default\<close>\<close>

definition op_assign_move :: "('a \<Rightarrow> 'a) \<Rightarrow> 'a store \<Rightarrow> vname \<Rightarrow> vname \<Rightarrow> error + vname \<times> 'a store" where
  "op_assign_move residue s this rhs =
     (case s this of
        None \<Rightarrow> Inl DanglingReference
      | Some d0 \<Rightarrow>
          (case s rhs of
             None \<Rightarrow> Inl DanglingReference
           | Some d \<Rightarrow>
               if length d = length d0
               then Inr (this, (s(rhs \<mapsto> map residue d))(this \<mapsto> d))
               else Inl IllFormed))"

text \<open>\<^verbatim>\<open>void operator=(const T& value)\<close>: set every element to the same scalar.\<close>

definition op_assign_value :: "'a store \<Rightarrow> vname \<Rightarrow> 'a cref \<Rightarrow> error + 'a store" where
  "op_assign_value s this val = std_fill s this val"

text \<open>
  \<^verbatim>\<open>fast_vector& operator/=(const T& value)\<close>: divide each element by a scalar. Nothing
  converts a vector, a \<^verbatim>\<open>scalar<T>\<close> or an expression to \<^verbatim>\<open>T\<close>, so only a plain value is
  accepted.
\<close>

definition op_div_assign :: "'a::{zero,divide} store \<Rightarrow> vname \<Rightarrow> 'a arg \<Rightarrow> error + vname \<times> 'a store" where
  "op_div_assign s this a =
     (case a of
        Indexable rhs \<Rightarrow> Inl IllFormed
      | Plain val \<Rightarrow>
          and_then (rows s this) (\<lambda>n.
          and_then
            (for_loop 0 n (\<lambda>i t.
               and_then (deref t val) (\<lambda>r.
               and_then (data_get t this i) (\<lambda>l.
               and_then (divide_T l r) (\<lambda>q.
               data_set t this i q)))) s)
            (\<lambda>t. Inr (this, t))))"

text \<open>
  \<^verbatim>\<open>template<typename RE> fast_vector& operator+=(RE&& rhs)\<close>: the body reads \<^verbatim>\<open>rhs[i]\<close>,
  so the argument must be indexable; a plain \<^verbatim>\<open>T\<close> has no \<^verbatim>\<open>operator[]\<close>.
\<close>

definition op_add_assign :: "'a::{zero,plus,minus,times,divide} store \<Rightarrow> vname \<Rightarrow> 'a arg \<Rightarrow> error + vname \<times> 'a store" where
  "op_add_assign s this a =
     (case a of
        Plain val \<Rightarrow> Inl IllFormed
      | Indexable rhs \<Rightarrow>
          and_then (rows s this) (\<lambda>n.
          and_then
            (for_loop 0 n (\<lambda>i t.
               and_then (index_operand t rhs i) (\<lambda>r.
               and_then (data_get t this i) (\<lambda>l.
               data_set t this i (l + r)))) s)
            (\<lambda>t. Inr (this, t))))"

section \<open>Reachable stores\<close>

text \<open>
  The stores a program can reach: it starts with no vector, and each step is one
  operation of the class that returns (a constructor, an assignment, a compound update,
  a write through \<^verbatim>\<open>operator[]\<close>) or the destruction of a vector.
\<close>

inductive reachable :: "'a::{zero,plus,minus,times,divide} store \<Rightarrow> bool" where
  start: "reachable Map.empty"
| construct_default: "reachable s \<Longrightarrow> fast_vector_default Rows junk s this = Inr t \<Longrightarrow> reachable t"
| construct_fill: "reachable s \<Longrightarrow> fast_vector_fill Rows junk s this val = Inr t \<Longrightarrow> reachable t"
| construct_from_expr: "reachable s \<Longrightarrow> fast_vector_from_expr Rows junk s this e = Inr t \<Longrightarrow> reachable t"
| construct_move: "reachable s \<Longrightarrow> fast_vector_move Rows residue s this rhs = Inr t \<Longrightarrow> reachable t"
| assign_expr: "reachable s \<Longrightarrow> op_assign_expr s this e = Inr (r, t) \<Longrightarrow> reachable t"
| assign_move: "reachable s \<Longrightarrow> op_assign_move residue s this rhs = Inr (r, t) \<Longrightarrow> reachable t"
| assign_value: "reachable s \<Longrightarrow> op_assign_value s this val = Inr t \<Longrightarrow> reachable t"
| div_assign: "reachable s \<Longrightarrow> op_div_assign s this a = Inr (r, t) \<Longrightarrow> reachable t"
| add_assign: "reachable s \<Longrightarrow> op_add_assign s this a = Inr (r, t) \<Longrightarrow> reachable t"
| element_write: "reachable s \<Longrightarrow> op_index_write s this i x = Inr t \<Longrightarrow> reachable t"
| destroy: "reachable s \<Longrightarrow> reachable (s(this := None))"

section \<open>Auxiliary notions for the proofs\<close>

text \<open>Two stores that hold, for each vector of a set, the same length and the same
  element at one index.\<close>

definition agree :: "vname set \<Rightarrow> nat \<Rightarrow> 'a store \<Rightarrow> 'a store \<Rightarrow> bool" where
  "agree V i s t \<longleftrightarrow>
     (\<forall>v\<in>V. map_option length (t v) = map_option length (s v) \<and>
        (\<forall>d d'. s v = Some d \<longrightarrow> t v = Some d' \<longrightarrow> i < length d \<longrightarrow> d' ! i = d ! i))"

text \<open>The state of a loop that has rewritten the elements below \<open>j\<close> of one vector.\<close>

definition written :: "'a store \<Rightarrow> vname \<Rightarrow> 'a list \<Rightarrow> (nat \<Rightarrow> 'a) \<Rightarrow> nat \<Rightarrow> 'a store \<Rightarrow> bool" where
  "written s this d f j t \<longleftrightarrow>
     (\<exists>d'. t this = Some d' \<and> length d' = length d \<and>
        (\<forall>k<j. d' ! k = f k) \<and> (\<forall>k. j \<le> k \<longrightarrow> k < length d \<longrightarrow> d' ! k = d ! k) \<and>
        (\<forall>v. v \<noteq> this \<longrightarrow> t v = s v))"

text \<open>Whether a \<^verbatim>\<open>const T&\<close> argument is bound to an element of the vector \<open>a\<close>.\<close>

fun stored_in :: "'a cref \<Rightarrow> vname \<Rightarrow> bool" where
  "stored_in (Temp v) a = False"
| "stored_in (Elem b k) a = (b = a)"

section \<open>Sequencing and loops\<close>

lemma and_then_Inr_iff:
  "and_then m f = Inr y \<longleftrightarrow> (\<exists>x. m = Inr x \<and> f x = Inr y)"
  by (cases m) auto

lemma and_then_Inl_iff:
  "and_then m f = Inl e \<longleftrightarrow> m = Inl e \<or> (\<exists>x. m = Inr x \<and> f x = Inl e)"
  by (cases m) auto

lemma for_loop_done: "\<not> i < n \<Longrightarrow> for_loop i n body s = Inr s"
  by (simp add: for_loop.simps)

lemma for_loop_step:
  "i < n \<Longrightarrow> for_loop i n body s = and_then (body i s) (for_loop (Suc i) n body)"
  by (subst for_loop.simps) simp

lemma for_loop_total:
  assumes "I i s" and "i \<le> n"
    and step: "\<And>j t. i \<le> j \<Longrightarrow> j < n \<Longrightarrow> I j t \<Longrightarrow> \<exists>t'. body j t = Inr t' \<and> I (Suc j) t'"
  shows "\<exists>t. for_loop i n body s = Inr t \<and> I n t"
  using assms
proof (induction "n - i" arbitrary: i s)
  case 0
  then show ?case by (auto simp: for_loop_done)
next
  case (Suc k)
  then have lt: "i < n" by simp
  from Suc.prems(3)[OF le_refl lt Suc.prems(1)]
  obtain t' where t': "body i s = Inr t'" "I (Suc i) t'" by blast
  have "\<exists>t. for_loop (Suc i) n body t' = Inr t \<and> I n t"
  proof (rule Suc.hyps(1))
    show "k = n - Suc i" using Suc.hyps(2) by simp
    show "I (Suc i) t'" by (rule t')
    show "Suc i \<le> n" using lt by simp
    show "\<And>j t. Suc i \<le> j \<Longrightarrow> j < n \<Longrightarrow> I j t \<Longrightarrow> \<exists>t'. body j t = Inr t' \<and> I (Suc j) t'"
      using Suc.prems(3) by simp
  qed
  then show ?case using t' lt by (simp add: for_loop_step)
qed

lemma for_loop_partial:
  assumes "for_loop i n body s = Inr t" and "I i s" and "i \<le> n"
    and step: "\<And>j u u'. i \<le> j \<Longrightarrow> j < n \<Longrightarrow> I j u \<Longrightarrow> body j u = Inr u' \<Longrightarrow> I (Suc j) u'"
  shows "I n t"
  using assms
proof (induction "n - i" arbitrary: i s)
  case 0
  then show ?case by (auto simp: for_loop_done)
next
  case (Suc k)
  then have lt: "i < n" by simp
  from Suc.prems(1) lt obtain s' where s': "body i s = Inr s'" "for_loop (Suc i) n body s' = Inr t"
    by (auto simp: for_loop_step and_then_Inr_iff)
  have I': "I (Suc i) s'" using Suc.prems(4)[OF le_refl lt Suc.prems(2) s'(1)] .
  show ?case
  proof (rule Suc.hyps(1)[OF _ s'(2) I'])
    show "k = n - Suc i" using Suc.hyps(2) by simp
    show "Suc i \<le> n" using lt by simp
    show "\<And>j u u'. Suc i \<le> j \<Longrightarrow> j < n \<Longrightarrow> I j u \<Longrightarrow> body j u = Inr u' \<Longrightarrow> I (Suc j) u'"
      using Suc.prems(4) by simp
  qed
qed

lemma for_loop_foldl:
  "for_loop i n body s = foldl (\<lambda>acc j. and_then acc (body j)) (Inr s) [i..<n]"
proof (induction "n - i" arbitrary: i s)
  case 0
  then show ?case by (simp add: for_loop_done)
next
  case (Suc k)
  then have lt: "i < n" by simp
  have fold_Inl: "foldl (\<lambda>acc j. and_then acc (body j)) (Inl e) xs = Inl e" for e xs
    by (induction xs) auto
  show ?case
  proof (cases "body i s")
    case (Inl e)
    then show ?thesis using lt by (simp add: for_loop_step upt_conv_Cons fold_Inl)
  next
    case (Inr s')
    have "for_loop (Suc i) n body s' = foldl (\<lambda>acc j. and_then acc (body j)) (Inr s') [Suc i..<n]"
      by (rule Suc.hyps(1)) (use Suc.hyps(2) in simp)
    then show ?thesis using lt Inr by (simp add: for_loop_step upt_conv_Cons)
  qed
qed

section \<open>Reading and writing the store\<close>

lemma rows_Some [simp]: "s this = Some d \<Longrightarrow> rows s this = Inr (length d)"
  by (simp add: rows_def)

lemma rows_None [simp]: "s this = None \<Longrightarrow> rows s this = Inl DanglingReference"
  by (simp add: rows_def)

lemma data_get_Some:
  "s this = Some d \<Longrightarrow> i < length d \<Longrightarrow> data_get s this i = Inr (d ! i)"
  by (simp add: data_get_def)

lemma data_set_Some:
  "s this = Some d \<Longrightarrow> i < length d \<Longrightarrow> data_set s this i v = Inr (s(this \<mapsto> d[i := v]))"
  by (simp add: data_set_def)

lemma data_set_Inr:
  "data_set s this i v = Inr t \<Longrightarrow> \<exists>d. s this = Some d \<and> i < length d \<and> t = s(this \<mapsto> d[i := v])"
  by (auto simp: data_set_def split: option.splits if_splits)

lemma op_index_Some:
  "s v = Some d \<Longrightarrow> op_index s v i = (if i < length d then Inr (d ! i) else Inl OutOfBounds)"
  by (simp add: op_index_def dbn_assert_def data_get_def)

lemma op_index_None: "s v = None \<Longrightarrow> op_index s v i = Inl DanglingReference"
  by (simp add: op_index_def)

lemma agree_mono: "agree V i s t \<Longrightarrow> W \<subseteq> V \<Longrightarrow> agree W i s t"
  by (auto simp: agree_def)

lemma op_index_agree:
  assumes "agree {v} i s t"
  shows "op_index t v i = op_index s v i"
proof (cases "s v")
  case None
  then have "t v = None" using assms by (simp add: agree_def)
  with None show ?thesis by (simp add: op_index_None)
next
  case (Some d)
  then obtain d' where d': "t v = Some d'" "length d' = length d"
    using assms by (auto simp: agree_def)
  then have "i < length d \<Longrightarrow> d' ! i = d ! i" using assms Some by (simp add: agree_def)
  then show ?thesis using Some d' by (simp add: op_index_Some)
qed

lemma index_agree:
  "agree (vectors_of x) i s t \<Longrightarrow> index_operand t x i = index_operand s x i"
  "agree (vectors_of_expr e) i s t \<Longrightarrow> index_expr t e i = index_expr s e i"
proof (induction x and e)
  case (Vector v)
  then show ?case by (simp add: op_index_agree)
next
  case (Scalar a)
  then show ?case by simp
next
  case (Nested e)
  then show ?case by simp
next
  case (Expr l bop r)
  from Expr.prems have "agree (vectors_of l) i s t" "agree (vectors_of r) i s t"
    by (auto intro: agree_mono)
  then show ?case using Expr.IH by simp
qed

lemma written_start: "s this = Some d \<Longrightarrow> written s this d f 0 s"
  by (simp add: written_def)

lemma written_agree:
  assumes "s this = Some d" and "written s this d f j t"
  shows "agree V j s t"
proof -
  from assms(2) obtain d' where d': "t this = Some d'" "length d' = length d"
    "\<forall>k. j \<le> k \<longrightarrow> k < length d \<longrightarrow> d' ! k = d ! k" "\<forall>v. v \<noteq> this \<longrightarrow> t v = s v"
    by (auto simp: written_def)
  have "map_option length (t v) = map_option length (s v) \<and>
        (\<forall>x x'. s v = Some x \<longrightarrow> t v = Some x' \<longrightarrow> j < length x \<longrightarrow> x' ! j = x ! j)" for v
    using d' assms(1) by (cases "v = this") auto
  then show ?thesis by (simp add: agree_def)
qed

lemma written_step:
  assumes "written s this d f j t" and "j < length d" and "t this = Some d'"
  shows "written s this d f (Suc j) (t(this \<mapsto> d'[j := f j]))"
  using assms by (auto simp: written_def nth_list_update less_Suc_eq)

lemma written_end:
  assumes "s this = Some d" and "written s this d f (length d) t"
  shows "t = s(this \<mapsto> map f [0..<length d])"
proof
  fix v
  from assms(2) obtain d' where d': "t this = Some d'" "length d' = length d"
    "\<forall>k<length d. d' ! k = f k" "\<forall>v. v \<noteq> this \<longrightarrow> t v = s v"
    by (auto simp: written_def)
  have "d' = map f [0..<length d]"
    by (rule nth_equalityI) (use d' in auto)
  then show "t v = (s(this \<mapsto> map f [0..<length d])) v"
    using d' by auto
qed

lemma pointwise_loop:
  assumes sd: "s this = Some d"
    and body: "\<And>j t d'. j < length d \<Longrightarrow> written s this d f j t \<Longrightarrow> t this = Some d' \<Longrightarrow>
                 body j t = Inr (t(this \<mapsto> d'[j := f j]))"
  shows "for_loop 0 (length d) body s = Inr (s(this \<mapsto> map f [0..<length d]))"
proof -
  have "\<exists>t. for_loop 0 (length d) body s = Inr t \<and> written s this d f (length d) t"
  proof (rule for_loop_total)
    show "written s this d f 0 s" using sd by (simp add: written_def)
    show "0 \<le> length d" by simp
    fix j t
    assume j: "j < length d" and w: "written s this d f j t"
    then obtain d' where d': "t this = Some d'" by (auto simp: written_def)
    have "body j t = Inr (t(this \<mapsto> d'[j := f j]))" using body[OF j w d'] .
    moreover have "written s this d f (Suc j) (t(this \<mapsto> d'[j := f j]))"
      using written_step[OF w j d'] .
    ultimately show "\<exists>t'. body j t = Inr t' \<and> written s this d f (Suc j) t'" by blast
  qed
  then obtain t where t: "for_loop 0 (length d) body s = Inr t" "written s this d f (length d) t"
    by blast
  from written_end[where f = f, OF sd t(2)] t(1) show ?thesis by simp
qed

section \<open>Materialization\<close>

lemma pointwise_loop_partial:
  assumes sd: "s this = Some d"
    and run: "for_loop 0 (length d) body s = Inr t"
    and body: "\<And>j u d' u'. j < length d \<Longrightarrow> written s this d f j u \<Longrightarrow> u this = Some d' \<Longrightarrow>
                 body j u = Inr u' \<Longrightarrow> u' = u(this \<mapsto> d'[j := f j]) \<and> Q j"
  shows "t = s(this \<mapsto> map f [0..<length d]) \<and> (\<forall>j<length d. Q j)"
proof -
  let ?I = "\<lambda>j u. written s this d f j u \<and> (\<forall>k<j. Q k)"
  have "?I (length d) t"
  proof (rule for_loop_partial[where I = ?I, OF run])
    show "?I 0 s" using written_start[of s this d f] sd by simp
    show "0 \<le> length d" by simp
    fix j u u'
    assume j: "j < length d" and I: "?I j u" and b: "body j u = Inr u'"
    from I obtain d' where d': "u this = Some d'" by (auto simp: written_def)
    from I have "written s this d f j u" by simp
    from body[OF j this d' b] have u': "u' = u(this \<mapsto> d'[j := f j])" and q: "Q j" by auto
    from I have w: "written s this d f j u" by simp
    have "written s this d f (Suc j) u'"
      unfolding u' by (rule written_step[OF w j d'])
    moreover have "\<forall>k<Suc j. Q k" using I q by (auto simp: less_Suc_eq)
    ultimately show "?I (Suc j) u'" by simp
  qed
  then show ?thesis using written_end[where s = s and this = this and d = d and f = f, OF sd] by blast
qed

lemma materialize_total:
  fixes s :: "'a::{zero,plus,minus,times,divide} store"
  assumes sd: "s this = Some d"
    and ev: "\<forall>i<length d. index_expr s e i = Inr (f i)"
  shows "materialize s this e = Inr (s(this \<mapsto> map f [0..<length d]))"
proof -
  have "for_loop 0 (length d) (\<lambda>i t. and_then (index_expr t e i) (\<lambda>v. data_set t this i v)) s
        = Inr (s(this \<mapsto> map f [0..<length d]))"
  proof (rule pointwise_loop[where s = s and this = this and d = d and f = f, OF sd])
    fix j t d'
    assume j: "j < length d" and w: "written s this d f j t" and d': "t this = Some d'"
    have "index_expr t e j = index_expr s e j"
      by (rule index_agree) (rule written_agree[of s this d, OF sd w])
    moreover have "j < length d'" using w d' j by (auto simp: written_def)
    ultimately show "and_then (index_expr t e j) (\<lambda>v. data_set t this j v)
                     = Inr (t(this \<mapsto> d'[j := f j]))"
      using ev j d' by (simp add: data_set_Some)
  qed
  then show ?thesis using sd by (simp add: materialize_def)
qed

lemma materialize_partial:
  fixes s :: "'a::{zero,plus,minus,times,divide} store"
  assumes sd: "s this = Some d"
    and run: "materialize s this e = Inr t"
  shows "\<exists>d'. length d' = length d \<and> t = s(this \<mapsto> d') \<and>
           (\<forall>i<length d. index_expr s e i = Inr (d' ! i))"
proof -
  define f where "f i = projr (index_expr s e i)" for i
  let ?body = "\<lambda>i t. and_then (index_expr t e i) (\<lambda>v. data_set t this i v)"
  from run sd have loop: "for_loop 0 (length d) ?body s = Inr t"
    by (simp add: materialize_def)
  have "t = s(this \<mapsto> map f [0..<length d]) \<and> (\<forall>j<length d. index_expr s e j = Inr (f j))"
  proof (rule pointwise_loop_partial[where s = s and this = this and d = d and f = f, OF sd loop])
    fix j u d' u'
    assume j: "j < length d" and w: "written s this d f j u" and d': "u this = Some d'"
      and b: "?body j u = Inr u'"
    have eq: "index_expr u e j = index_expr s e j"
      by (rule index_agree) (rule written_agree[of s this d, OF sd w])
    from b obtain v where v: "index_expr u e j = Inr v" "data_set u this j v = Inr u'"
      by (auto simp: and_then_Inr_iff)
    from v(1) eq have fj: "index_expr s e j = Inr (f j)" "v = f j" by (simp_all add: f_def)
    from v(2) d' have "u' = u(this \<mapsto> d'[j := v])" by (auto dest: data_set_Inr)
    with fj show "u' = u(this \<mapsto> d'[j := f j]) \<and> index_expr s e j = Inr (f j)" by simp
  qed
  then show ?thesis by (intro exI[of _ "map f [0..<length d]"]) simp
qed

lemma materialize_iff:
  fixes s :: "'a::{zero,plus,minus,times,divide} store"
  assumes sd: "s this = Some d"
  shows "materialize s this e = Inr t \<longleftrightarrow>
         (\<exists>d'. length d' = length d \<and> t = s(this \<mapsto> d') \<and>
            (\<forall>i<length d. index_expr s e i = Inr (d' ! i)))"
proof
  assume "materialize s this e = Inr t"
  then show "\<exists>d'. length d' = length d \<and> t = s(this \<mapsto> d') \<and>
            (\<forall>i<length d. index_expr s e i = Inr (d' ! i))"
    by (rule materialize_partial[of s this d, OF sd])
next
  assume "\<exists>d'. length d' = length d \<and> t = s(this \<mapsto> d') \<and>
            (\<forall>i<length d. index_expr s e i = Inr (d' ! i))"
  then obtain d' where d': "length d' = length d" "t = s(this \<mapsto> d')"
    "\<forall>i<length d. index_expr s e i = Inr (d' ! i)" by blast
  have "map ((!) d') [0..<length d] = d'" using d'(1) by (metis map_nth)
  with materialize_total[of s this d, OF sd d'(3)] d'(2) show "materialize s this e = Inr t" by simp
qed

lemma index_fresh:
  fixes s :: "'a::{zero,plus,minus,times,divide} store"
  assumes "new \<notin> vectors_of_expr e"
  shows "index_expr (s(new \<mapsto> d)) e i = index_expr s e i"
  by (rule index_agree) (use assms in \<open>auto simp: agree_def\<close>)

lemma from_expr_iff:
  fixes s :: "'a::{zero,plus,minus,times,divide} store"
  assumes R: "0 < Rows" and fresh: "new \<notin> vectors_of_expr e"
  shows "fast_vector_from_expr Rows junk s new e = Inr t \<longleftrightarrow>
         (\<exists>d'. length d' = Rows \<and> t = s(new \<mapsto> d') \<and>
            (\<forall>i<Rows. index_expr s e i = Inr (d' ! i)))"
proof -
  let ?d = "map junk [0..<Rows]"
  let ?s1 = "s(new \<mapsto> ?d)"
  have al: "allocate Rows junk s new = Inr ?s1" using R by (simp add: allocate_def)
  have s1: "?s1 new = Some ?d" by simp
  have "materialize ?s1 new e = Inr t \<longleftrightarrow>
         (\<exists>d'. length d' = length ?d \<and> t = ?s1(new \<mapsto> d') \<and>
            (\<forall>i<length ?d. index_expr ?s1 e i = Inr (d' ! i)))"
    by (rule materialize_iff[of ?s1 new ?d, OF s1])
  then show ?thesis using al by (simp add: fast_vector_from_expr_def index_fresh[OF fresh])
qed

text \<open>
  Claim C1. Let \<open>this\<close> be a vector of length \<open>N\<close> and \<open>e\<close> an expression tree. Assigning
  \<open>e\<close> to \<open>this\<close> returns (a reference to \<open>this\<close> and) a store exactly when \<open>e\<close> has a value
  at every index below \<open>N\<close> in the store before the assignment, and then element \<open>i\<close> of
  \<open>this\<close> is that value, for every \<open>i < N\<close>, and nothing else has changed. The same holds
  for constructing a new vector of \<open>Rows\<close> elements from \<open>e\<close>. The loop is the sequence of
  the steps \<^verbatim>\<open>_data[i] = e[i]\<close> for \<open>i = 0, ..., N - 1\<close>, each index once, in this order.
\<close>

theorem materialization_law:
  fixes s :: "'a::{zero,plus,minus,times,divide} store"
  assumes sd: "s this = Some d"
  shows "(op_assign_expr s this e = Inr (r, t) \<longleftrightarrow>
            r = this \<and> (\<exists>d'. length d' = length d \<and> t = s(this \<mapsto> d') \<and>
              (\<forall>i<length d. index_expr s e i = Inr (d' ! i))))
       \<and> (0 < Rows \<and> new \<notin> vectors_of_expr e \<longrightarrow>
            (fast_vector_from_expr Rows junk s new e = Inr t' \<longleftrightarrow>
              (\<exists>d'. length d' = Rows \<and> t' = s(new \<mapsto> d') \<and>
                (\<forall>i<Rows. index_expr s e i = Inr (d' ! i)))))
       \<and> materialize s this e =
            foldl (\<lambda>acc i. and_then acc (\<lambda>u. and_then (index_expr u e i) (\<lambda>v. data_set u this i v)))
              (Inr s) [0..<length d]"
proof (intro conjI impI)
  show "op_assign_expr s this e = Inr (r, t) \<longleftrightarrow>
            r = this \<and> (\<exists>d'. length d' = length d \<and> t = s(this \<mapsto> d') \<and>
              (\<forall>i<length d. index_expr s e i = Inr (d' ! i)))"
    using materialize_iff[of s this d e t, OF sd]
    by (auto simp: op_assign_expr_def and_then_Inr_iff)
next
  assume "0 < Rows \<and> new \<notin> vectors_of_expr e"
  then show "fast_vector_from_expr Rows junk s new e = Inr t' \<longleftrightarrow>
              (\<exists>d'. length d' = Rows \<and> t' = s(new \<mapsto> d') \<and>
                (\<forall>i<Rows. index_expr s e i = Inr (d' ! i)))"
    using from_expr_iff by blast
next
  show "materialize s this e =
            foldl (\<lambda>acc i. and_then acc (\<lambda>u. and_then (index_expr u e i) (\<lambda>v. data_set u this i v)))
              (Inr s) [0..<length d]"
    using sd by (simp add: materialize_def for_loop_foldl)
qed

lemmas all_less = All_less_Suc numeral_2_eq_2 numeral_3_eq_3

lemmas eval_defs = op_index_def rows_def dbn_assert_def data_get_def data_set_def scalar_index_def
  divide_T_def

theorem materialization_law_witness:
  "op_assign_expr [0 \<mapsto> [1, 2, 3 :: int], 1 \<mapsto> [4, 5, 6], 2 \<mapsto> [0, 0, 0]] 2 (op_plus 0 (Vector 1))
     = Inr (2, [0 \<mapsto> [1, 2, 3], 1 \<mapsto> [4, 5, 6], 2 \<mapsto> [5, 7, 9]])
   \<and> fast_vector_from_expr 3 (\<lambda>_. 0) [0 \<mapsto> [1, 2, 3 :: int], 1 \<mapsto> [4, 5, 6]] 2 (op_minus 0 (Vector 1))
     = Inr [0 \<mapsto> [1, 2, 3], 1 \<mapsto> [4, 5, 6], 2 \<mapsto> [-3, -3, -3]]
   \<and> op_assign_expr [0 \<mapsto> [1, 2, 3 :: int], 1 \<mapsto> [4, 5, 6], 2 \<mapsto> [0, 0, 0]] 2
       (expr_mul_scalar (op_plus 0 (Vector 1)) 2)
     = Inr (2, [0 \<mapsto> [1, 2, 3], 1 \<mapsto> [4, 5, 6], 2 \<mapsto> [10, 14, 18]])"
proof -
  let ?s = "[(0::vname) \<mapsto> [1, 2, 3 :: int], 1 \<mapsto> [4, 5, 6], 2 \<mapsto> [0, 0, 0]]"
  let ?n = "expr_mul_scalar (op_plus 0 (Vector 1)) 2 :: int fast_vector_expr"
  let ?s2 = "[(0::vname) \<mapsto> [1, 2, 3 :: int], 1 \<mapsto> [4, 5, 6]]"
  have a: "?s 2 = Some [0, 0, 0]" by simp
  have b: "length [5, 7, 9 :: int] = length [0, 0, 0 :: int] \<and>
           [0 \<mapsto> [1, 2, 3 :: int], 1 \<mapsto> [4, 5, 6], 2 \<mapsto> [5, 7, 9]] = ?s(2 \<mapsto> [5, 7, 9]) \<and>
           (\<forall>i<length [0, 0, 0 :: int]. index_expr ?s (op_plus 0 (Vector 1)) i = Inr ([5, 7, 9] ! i))"
    by (simp add: all_less op_plus_def eval_defs)
  have c: "length [-3, -3, -3 :: int] = 3 \<and>
           [0 \<mapsto> [1, 2, 3 :: int], 1 \<mapsto> [4, 5, 6], 2 \<mapsto> [-3, -3, -3]] = ?s2(2 \<mapsto> [-3, -3, -3]) \<and>
           (\<forall>i<3. index_expr ?s2 (op_minus 0 (Vector 1)) i = Inr ([-3, -3, -3] ! i))"
    by (simp add: all_less op_minus_def eval_defs)
  have d: "(0::nat) < 3 \<and> 2 \<notin> vectors_of_expr (op_minus 0 (Vector 1) :: int fast_vector_expr)"
    by (simp add: op_minus_def)
  from materialization_law[of ?s 2 "[0, 0, 0]" "op_plus 0 (Vector 1)" 2
      "[0 \<mapsto> [1, 2, 3], 1 \<mapsto> [4, 5, 6], 2 \<mapsto> [5, 7, 9]]", OF a] b
  have "op_assign_expr ?s 2 (op_plus 0 (Vector 1))
     = Inr (2, [0 \<mapsto> [1, 2, 3], 1 \<mapsto> [4, 5, 6], 2 \<mapsto> [5, 7, 9]])"
    by blast
  moreover
  have a2: "?s2 0 = Some [1, 2, 3]" by simp
  from materialization_law[where s = ?s2 and this = 0 and d = "[1, 2, 3]"
      and e = "op_minus 0 (Vector 1)" and Rows = 3 and new = 2 and junk = "\<lambda>_. 0"
      and t' = "[0 \<mapsto> [1, 2, 3], 1 \<mapsto> [4, 5, 6], 2 \<mapsto> [-3, -3, -3]]", OF a2] c d
  have "fast_vector_from_expr 3 (\<lambda>_. 0) ?s2 2 (op_minus 0 (Vector 1))
     = Inr [0 \<mapsto> [1, 2, 3], 1 \<mapsto> [4, 5, 6], 2 \<mapsto> [-3, -3, -3]]"
    by blast
  moreover
  have n: "length [10, 14, 18 :: int] = length [0, 0, 0 :: int] \<and>
           [0 \<mapsto> [1, 2, 3 :: int], 1 \<mapsto> [4, 5, 6], 2 \<mapsto> [10, 14, 18]] = ?s(2 \<mapsto> [10, 14, 18]) \<and>
           (\<forall>i<length [0, 0, 0 :: int]. index_expr ?s ?n i = Inr ([10, 14, 18] ! i))"
    by (simp add: all_less expr_mul_scalar_def op_plus_def eval_defs)
  from materialization_law[of ?s 2 "[0, 0, 0]" ?n 2
      "[0 \<mapsto> [1, 2, 3], 1 \<mapsto> [4, 5, 6], 2 \<mapsto> [10, 14, 18]]", OF a] n
  have "op_assign_expr ?s 2 ?n
     = Inr (2, [0 \<mapsto> [1, 2, 3], 1 \<mapsto> [4, 5, 6], 2 \<mapsto> [10, 14, 18]])"
    by blast
  ultimately show ?thesis by simp
qed

section \<open>Operators, broadcast and compound addition\<close>

lemma add_assign_total:
  fixes s :: "'a::{zero,plus,minus,times,divide} store"
  assumes sd: "s this = Some d"
    and ev: "\<forall>i<length d. index_operand s rhs i = Inr (g i)"
  shows "op_add_assign s this (Indexable rhs)
         = Inr (this, s(this \<mapsto> map (\<lambda>i. d ! i + g i) [0..<length d]))"
proof -
  let ?body = "\<lambda>i t. and_then (index_operand t rhs i) (\<lambda>r.
                 and_then (data_get t this i) (\<lambda>l. data_set t this i (l + r)))"
  let ?f = "\<lambda>i. d ! i + g i"
  have "for_loop 0 (length d) ?body s = Inr (s(this \<mapsto> map ?f [0..<length d]))"
  proof (rule pointwise_loop[where s = s and this = this and d = d and f = ?f, OF sd])
    fix j t d'
    assume j: "j < length d" and w: "written s this d ?f j t" and d': "t this = Some d'"
    have "index_operand t rhs j = index_operand s rhs j"
      by (rule index_agree) (rule written_agree[of s this d, OF sd w])
    moreover have "j < length d'" "d' ! j = d ! j" using w d' j by (auto simp: written_def)
    ultimately show "?body j t = Inr (t(this \<mapsto> d'[j := ?f j]))"
      using ev j d' by (simp add: data_set_Some data_get_Some)
  qed
  then show ?thesis using sd by (simp add: op_add_assign_def)
qed

lemma apply_with_guarded:
  fixes l r :: "'a::{zero,plus,minus,times,divide}"
  shows "apply_with divide_T bop l r = apply_op bop l r"
  by (cases bop) simp_all

lemma apply_with_guarded_ext:
  "apply_with divide_T bop = (apply_op bop :: 'a::{zero,plus,minus,times,divide} \<Rightarrow> 'a \<Rightarrow> error + 'a)"
  by (intro ext) (rule apply_with_guarded)

lemma index_with_guarded:
  fixes s :: "'a::{zero,plus,minus,times,divide} store"
  shows "index_operand_with divide_T s x i = index_operand s x i"
    and "index_expr_with divide_T s e i = index_expr s e i"
  by (induction x and e) (simp_all add: apply_with_guarded_ext)

lemma apply_with_fails:
  "(\<exists>err. apply_with dv bop l r = Inl err) \<longleftrightarrow> bop = div_binary_op \<and> (\<exists>err. dv l r = Inl err)"
  by (cases bop) simp_all

text \<open>With a division that always has a value, an evaluation within the lengths of the
  vectors it reads always has a value: the engine has no failure of its own.\<close>

lemma index_with_total:
  fixes s :: "'a::{plus,minus,times} store"
  assumes tot: "\<And>x y. \<exists>q. dv x y = Inr q"
  shows "\<forall>v\<in>vectors_of x. \<exists>d. s v = Some d \<and> i < length d \<Longrightarrow>
           \<exists>y. index_operand_with dv s x i = Inr y"
    and "\<forall>v\<in>vectors_of_expr e. \<exists>d. s v = Some d \<and> i < length d \<Longrightarrow>
           \<exists>y. index_expr_with dv s e i = Inr y"
proof (induction x and e)
  case (Vector v)
  then show ?case by (auto simp: op_index_Some)
next
  case (Scalar a)
  then show ?case by simp
next
  case (Nested e)
  then show ?case by simp
next
  case (Expr l bop r)
  from Expr.IH(1) Expr.prems obtain a where a: "index_operand_with dv s l i = Inr a" by auto
  from Expr.IH(2) Expr.prems obtain b where b: "index_operand_with dv s r i = Inr b" by auto
  have "\<exists>y. apply_with dv bop a b = Inr y"
    using tot[of a b] by (cases bop) auto
  with a b show ?case by simp
qed

text \<open>An evaluation within the lengths fails only where the division of \<open>T\<close> fails.\<close>

lemma index_with_fails:
  fixes s :: "'a::{plus,minus,times} store"
  shows "index_operand_with dv s x i = Inl err \<Longrightarrow>
           \<forall>v\<in>vectors_of x. \<exists>d. s v = Some d \<and> i < length d \<Longrightarrow> \<exists>a b. dv a b = Inl err"
    and "index_expr_with dv s e i = Inl err \<Longrightarrow>
           \<forall>v\<in>vectors_of_expr e. \<exists>d. s v = Some d \<and> i < length d \<Longrightarrow> \<exists>a b. dv a b = Inl err"
proof (induction x and e)
  case (Vector v)
  then show ?case by (auto simp: op_index_Some)
next
  case (Scalar a)
  then show ?case by simp
next
  case (Nested e)
  then show ?case by simp
next
  case (Expr l bop r)
  from Expr.prems(1) consider
    "index_operand_with dv s l i = Inl err"
    | "index_operand_with dv s r i = Inl err"
    | a b :: 'a where "apply_with dv bop a b = Inl err"
    by (auto simp: and_then_Inl_iff)
  then show ?case
  proof cases
    case 1
    then show ?thesis using Expr.IH(1) Expr.prems(2) by simp
  next
    case 2
    then show ?thesis using Expr.IH(2) Expr.prems(2) by simp
  next
    case 3
    then show ?thesis by (cases bop) auto
  qed
qed

text \<open>
  Claim C7. The divide operator performs no zero-check and has no failure of its own. With
  the division of \<^verbatim>\<open>T\<close> left open as \<open>dv\<close>, \<^verbatim>\<open>div_binary_op::apply\<close> returns exactly what \<open>dv\<close>
  returns on its two arguments, for every \<open>dv\<close> and every pair of arguments, zero included;
  applying an operator yields no value if and only if the operator is the division and
  the division of \<^verbatim>\<open>T\<close> itself yields none. An operator that compared its right argument
  with zero and reported a failure would break both statements at a division that has a
  value at zero. For a whole expression: when the division of \<^verbatim>\<open>T\<close> always has a value, every
  evaluation within the lengths of the vectors has one, and a failing evaluation within
  the lengths hands on a failure of the division of \<^verbatim>\<open>T\<close>. The operators and the evaluator
  used in the other theorems are the instance at the guarded division \<open>divide_T\<close>; there,
  for \<open>r \<noteq> 0\<close> the result is exactly the quotient \<open>l div r\<close>, and the branch without a value
  is taken exactly when \<open>r = 0\<close>.
\<close>

theorem divide_unchecked:
  fixes l r :: "'a::{zero,plus,minus,times,divide}" and dv :: "'a \<Rightarrow> 'a \<Rightarrow> error + 'a"
  shows "apply_with dv div_binary_op l r = dv l r
       \<and> ((\<exists>err. apply_with dv bop l r = Inl err) \<longleftrightarrow>
            bop = div_binary_op \<and> (\<exists>err. dv l r = Inl err))
       \<and> ((\<forall>x y. \<exists>q. dv x y = Inr q) \<and> (\<forall>v\<in>vectors_of_expr e. \<exists>d. s v = Some d \<and> i < length d) \<longrightarrow>
            (\<exists>y. index_expr_with dv s e i = Inr y))
       \<and> ((\<forall>v\<in>vectors_of_expr e. \<exists>d. s v = Some d \<and> i < length d) \<and> index_expr_with dv s e i = Inl err \<longrightarrow>
            (\<exists>a b. dv a b = Inl err))
       \<and> apply_op bop l r = apply_with divide_T bop l r
       \<and> index_expr s e i = index_expr_with divide_T s e i
       \<and> (r \<noteq> 0 \<longrightarrow> apply_op div_binary_op l r = Inr (l div r))
       \<and> (r = 0 \<longrightarrow> apply_op div_binary_op l r = Inl DivisionByZero)
       \<and> ((\<exists>err. apply_op bop l r = Inl err) \<longleftrightarrow> bop = div_binary_op \<and> r = 0)"
proof (intro conjI impI)
  show "apply_with dv div_binary_op l r = dv l r" by simp
  show "(\<exists>err. apply_with dv bop l r = Inl err) \<longleftrightarrow>
            bop = div_binary_op \<and> (\<exists>err. dv l r = Inl err)"
    by (rule apply_with_fails)
  show "apply_op bop l r = apply_with divide_T bop l r" by (simp add: apply_with_guarded)
  show "index_expr s e i = index_expr_with divide_T s e i" by (simp add: index_with_guarded)
  show "r \<noteq> 0 \<Longrightarrow> apply_op div_binary_op l r = Inr (l div r)" by (simp add: divide_T_def)
  show "r = 0 \<Longrightarrow> apply_op div_binary_op l r = Inl DivisionByZero" by (simp add: divide_T_def)
  show "(\<exists>err. apply_op bop l r = Inl err) \<longleftrightarrow> bop = div_binary_op \<and> r = 0"
    by (cases bop) (auto simp: divide_T_def)
next
  assume "(\<forall>x y. \<exists>q. dv x y = Inr q) \<and> (\<forall>v\<in>vectors_of_expr e. \<exists>d. s v = Some d \<and> i < length d)"
  then show "\<exists>y. index_expr_with dv s e i = Inr y"
    using index_with_total(2)[of dv e s i] by blast
next
  assume "(\<forall>v\<in>vectors_of_expr e. \<exists>d. s v = Some d \<and> i < length d) \<and> index_expr_with dv s e i = Inl err"
  then show "\<exists>a b. dv a b = Inl err"
    using index_with_fails(2)[of dv s e i err] by blast
qed

theorem divide_unchecked_witness:
  "apply_op div_binary_op 7 (2::int) = Inr 3
   \<and> apply_op div_binary_op 7 (0::int) = Inl DivisionByZero
   \<and> apply_with (\<lambda>x y. Inr (x div y)) div_binary_op 7 (0::int) = Inr 0
   \<and> (\<exists>y. index_expr_with (\<lambda>x y. Inr (x div y)) [0 \<mapsto> [4, 6, 8 :: int]]
             (expr_div_scalar (op_plus 0 (Vector 0)) 0) 1 = Inr y)"
proof -
  let ?dv = "\<lambda>x y :: int. Inr (x div y) :: error + int"
  let ?s = "[(0::vname) \<mapsto> [4, 6, 8 :: int]]"
  let ?e = "expr_div_scalar (op_plus 0 (Vector 0)) 0 :: int fast_vector_expr"
  have tot: "\<forall>x y. \<exists>q. ?dv x y = Inr q" by simp
  have rng: "\<forall>v\<in>vectors_of_expr ?e. \<exists>d. ?s v = Some d \<and> 1 < length d"
    by (simp add: expr_div_scalar_def op_plus_def)
  have nz: "(2::int) \<noteq> 0" by simp
  from divide_unchecked[of ?dv 7 "2::int" div_binary_op ?e ?s 1] nz tot rng
  have a: "apply_op div_binary_op 7 (2::int) = Inr 3"
    and d: "\<exists>y. index_expr_with ?dv ?s ?e 1 = Inr y" by simp_all
  from divide_unchecked[of ?dv 7 "0::int" div_binary_op ?e ?s 1]
  have b: "apply_op div_binary_op 7 (0::int) = Inl DivisionByZero"
    and c: "apply_with ?dv div_binary_op 7 (0::int) = Inr 0" by simp_all
  from a b c d show ?thesis by blast
qed

text \<open>
  Claim C5. The scalar wrapper answers every index with its stored value. For a vector
  \<open>a\<close> and a scalar \<open>v\<close>, the expression \<open>a * v\<close> has the value \<open>a[i] * v\<close> at every index
  \<open>i\<close> of \<open>a\<close>, and materializing it, by assignment to a vector or by construction of a
  new one (no longer than \<open>a\<close>), stores \<open>a[i] * v\<close> at every index \<open>i\<close> of the destination.
\<close>

theorem scalar_broadcast:
  fixes s :: "'a::{zero,plus,minus,times,divide} store"
  assumes sa: "s a = Some da" and sd: "s dst = Some dd" and len: "length dd \<le> length da"
  shows "index_operand s (Scalar v) i = Inr v
       \<and> (i < length da \<longrightarrow> index_expr s (op_mul_scalar a v) i = Inr (da ! i * v))
       \<and> op_assign_expr s dst (op_mul_scalar a v)
           = Inr (dst, s(dst \<mapsto> map (\<lambda>i. da ! i * v) [0..<length dd]))
       \<and> (0 < Rows \<and> Rows \<le> length da \<and> new \<noteq> a \<longrightarrow>
            fast_vector_from_expr Rows junk s new (op_mul_scalar a v)
              = Inr (s(new \<mapsto> map (\<lambda>i. da ! i * v) [0..<Rows])))"
proof (intro conjI impI)
  show "index_operand s (Scalar v) i = Inr v" by (simp add: scalar_index_def)
  have ix: "index_expr s (op_mul_scalar a v) k = Inr (da ! k * v)" if "k < length da" for k
    using sa that by (simp add: op_mul_scalar_def op_index_Some scalar_index_def)
  then show "i < length da \<Longrightarrow> index_expr s (op_mul_scalar a v) i = Inr (da ! i * v)" .
  have "\<forall>k<length dd. index_expr s (op_mul_scalar a v) k = Inr (da ! k * v)"
    using ix len by simp
  from materialize_total[of s dst dd, OF sd this]
  show "op_assign_expr s dst (op_mul_scalar a v)
           = Inr (dst, s(dst \<mapsto> map (\<lambda>i. da ! i * v) [0..<length dd]))"
    by (simp add: op_assign_expr_def)
  assume h: "0 < Rows \<and> Rows \<le> length da \<and> new \<noteq> a"
  then have fresh: "new \<notin> vectors_of_expr (op_mul_scalar a v)" by (simp add: op_mul_scalar_def)
  have "length (map ((\<lambda>i. da ! i * v)) [0..<Rows]) = Rows \<and>
        s(new \<mapsto> map (\<lambda>i. da ! i * v) [0..<Rows]) = s(new \<mapsto> map (\<lambda>i. da ! i * v) [0..<Rows]) \<and>
        (\<forall>i<Rows. index_expr s (op_mul_scalar a v) i = Inr (map (\<lambda>i. da ! i * v) [0..<Rows] ! i))"
    using ix h by simp
  then show "fast_vector_from_expr Rows junk s new (op_mul_scalar a v)
              = Inr (s(new \<mapsto> map (\<lambda>i. da ! i * v) [0..<Rows]))"
    using from_expr_iff[of Rows new "op_mul_scalar a v" junk s, OF _ fresh] h by blast
qed

theorem scalar_broadcast_witness:
  "op_assign_expr [0 \<mapsto> [1, 2, 3 :: int], 1 \<mapsto> [0, 0, 0]] 1 (op_mul_scalar 0 2)
     = Inr (1, [0 \<mapsto> [1, 2, 3], 1 \<mapsto> [2, 4, 6]])
   \<and> index_operand [0 \<mapsto> [1, 2, 3 :: int], 1 \<mapsto> [0, 0, 0]] (Scalar 2) 7 = Inr 2"
proof -
  let ?s = "[(0::vname) \<mapsto> [1, 2, 3 :: int], 1 \<mapsto> [0, 0, 0]]"
  have a: "?s 0 = Some [1, 2, 3]" and b: "?s 1 = Some [0, 0, 0]"
    and c: "length [0, 0, 0 :: int] \<le> length [1, 2, 3 :: int]" by simp_all
  from scalar_broadcast[of ?s 0 "[1, 2, 3]" 1 "[0, 0, 0]" 2 7, OF a b c]
  show ?thesis by (simp add: upt_rec numeral_3_eq_3)
qed

text \<open>
  Claim C4. For vectors \<open>a\<close> and \<open>b\<close> of equal length, \<open>a += b\<close> returns a reference to \<open>a\<close>,
  and afterwards every index \<open>i\<close> of \<open>a\<close> holds the previous \<open>a[i]\<close> plus \<open>b[i]\<close>; no other
  vector has changed.
\<close>

theorem add_assign_vectors:
  fixes s :: "'a::{zero,plus,minus,times,divide} store"
  assumes sa: "s a = Some da" and sb: "s b = Some db" and len: "length da = length db"
  shows "op_add_assign s a (Indexable (Vector b))
         = Inr (a, s(a \<mapsto> map (\<lambda>i. da ! i + db ! i) [0..<length da]))"
proof -
  have "\<forall>i<length da. index_operand s (Vector b) i = Inr (db ! i)"
    using sb len by (simp add: op_index_Some)
  from add_assign_total[of s a da, OF sa this] show ?thesis .
qed

theorem add_assign_vectors_witness:
  "op_add_assign [0 \<mapsto> [1, 2, 3 :: int], 1 \<mapsto> [4, 5, 6]] 0 (Indexable (Vector 1))
     = Inr (0, [0 \<mapsto> [5, 7, 9], 1 \<mapsto> [4, 5, 6]])"
proof -
  let ?s = "[(0::vname) \<mapsto> [1, 2, 3 :: int], 1 \<mapsto> [4, 5, 6]]"
  have a: "?s 0 = Some [1, 2, 3]" and b: "?s 1 = Some [4, 5, 6]"
    and c: "length [1, 2, 3 :: int] = length [4, 5, 6 :: int]" by simp_all
  have e: "?s(0 \<mapsto> [5, 7, 9]) = [0 \<mapsto> [5, 7, 9], 1 \<mapsto> [4, 5, 6]]" by auto
  from add_assign_vectors[of ?s 0 "[1, 2, 3]" 1 "[4, 5, 6]", OF a b c] e
  show ?thesis by (simp add: upt_rec numeral_3_eq_3)
qed

text \<open>
  Claim C6. The compound update \<open>+=\<close> is safe when its right operand reads the updated
  vector at the index being written. For every operand \<open>e\<close>, whatever vectors it reads
  (\<open>a\<close> included), if \<open>e\<close> has the value \<open>g i\<close> at each index \<open>i\<close> in the store before the
  update, then after \<open>a += e\<close> index \<open>i\<close> of \<open>a\<close> holds the previous \<open>a[i]\<close> plus \<open>g i\<close>: the
  read of index \<open>i\<close> sees the element as it was before the update. In particular
  \<open>a += a\<close> doubles every element and \<open>a += a * v\<close> stores \<open>a[i] + a[i] * v\<close>.
\<close>

theorem add_assign_self_reference:
  fixes s :: "'a::{zero,plus,minus,times,divide} store"
  assumes sa: "s a = Some d"
  shows "((\<forall>i<length d. index_operand s e i = Inr (g i)) \<longrightarrow>
            op_add_assign s a (Indexable e)
              = Inr (a, s(a \<mapsto> map (\<lambda>i. d ! i + g i) [0..<length d])))
       \<and> op_add_assign s a (Indexable (Vector a)) = Inr (a, s(a \<mapsto> map (\<lambda>x. x + x) d))
       \<and> op_add_assign s a (Indexable (Nested (op_mul_scalar a v)))
           = Inr (a, s(a \<mapsto> map (\<lambda>x. x + x * v) d))"
proof (intro conjI impI)
  assume "\<forall>i<length d. index_operand s e i = Inr (g i)"
  from add_assign_total[of s a d, OF sa this]
  show "op_add_assign s a (Indexable e) = Inr (a, s(a \<mapsto> map (\<lambda>i. d ! i + g i) [0..<length d]))" .
next
  have "\<forall>i<length d. index_operand s (Vector a) i = Inr (d ! i)"
    using sa by (simp add: op_index_Some)
  from add_assign_total[of s a d, OF sa this]
  have "op_add_assign s a (Indexable (Vector a))
        = Inr (a, s(a \<mapsto> map (\<lambda>i. d ! i + d ! i) [0..<length d]))" .
  moreover have "map (\<lambda>i. d ! i + d ! i) [0..<length d] = map (\<lambda>x. x + x) d"
    by (rule nth_equalityI) simp_all
  ultimately show "op_add_assign s a (Indexable (Vector a)) = Inr (a, s(a \<mapsto> map (\<lambda>x. x + x) d))"
    by simp
next
  have "\<forall>i<length d. index_operand s (Nested (op_mul_scalar a v)) i = Inr (d ! i * v)"
    using sa by (simp add: op_mul_scalar_def op_index_Some scalar_index_def)
  from add_assign_total[of s a d, OF sa this]
  have "op_add_assign s a (Indexable (Nested (op_mul_scalar a v)))
        = Inr (a, s(a \<mapsto> map (\<lambda>i. d ! i + d ! i * v) [0..<length d]))" .
  moreover have "map (\<lambda>i. d ! i + d ! i * v) [0..<length d] = map (\<lambda>x. x + x * v) d"
    by (rule nth_equalityI) simp_all
  ultimately show "op_add_assign s a (Indexable (Nested (op_mul_scalar a v)))
           = Inr (a, s(a \<mapsto> map (\<lambda>x. x + x * v) d))"
    by simp
qed

theorem add_assign_self_reference_witness:
  "op_add_assign [0 \<mapsto> [1, 2, 3 :: int]] 0 (Indexable (Nested (op_mul_scalar 0 10)))
     = Inr (0, [0 \<mapsto> [11, 22, 33]])
   \<and> op_add_assign [0 \<mapsto> [1, 2, 3 :: int]] 0 (Indexable (Vector 0)) = Inr (0, [0 \<mapsto> [2, 4, 6]])
   \<and> op_add_assign [0 \<mapsto> [1, 2, 3 :: int]] 0 (Indexable (Nested (op_div 0 (Vector 0))))
     = Inr (0, [0 \<mapsto> [2, 3, 4]])"
proof -
  let ?s = "[(0::vname) \<mapsto> [1, 2, 3 :: int]]"
  let ?e = "Nested (op_div 0 (Vector 0)) :: int operand"
  have a: "?s 0 = Some [1, 2, 3]" by simp
  have g: "\<forall>i<length [1, 2, 3 :: int]. index_operand ?s ?e i = Inr ((\<lambda>_. 1) i)"
    by (simp add: all_less op_div_def eval_defs)
  from add_assign_self_reference[of ?s 0 "[1, 2, 3]" ?e "\<lambda>_. 1" 10, OF a] g
  show ?thesis by (simp add: upt_rec numeral_3_eq_3)
qed

section \<open>Updates by a plain value: division and fill\<close>

lemma deref_written:
  assumes "written s this d f j t" and "\<not> stored_in val this"
  shows "deref t val = deref s val"
proof (cases val)
  case (Temp v)
  then show ?thesis by simp
next
  case (Elem b k)
  with assms(2) have "b \<noteq> this" by simp
  with assms(1) have "t b = s b" by (auto simp: written_def)
  then show ?thesis using Elem by (simp add: data_get_def)
qed

lemma div_assign_total:
  fixes s :: "'a::{zero,divide} store"
  assumes sd: "s this = Some d"
    and nal: "\<not> stored_in val this"
    and dv: "deref s val = Inr r"
    and nz: "r \<noteq> 0"
  shows "op_div_assign s this (Plain val) = Inr (this, s(this \<mapsto> map (\<lambda>x. x div r) d))"
proof -
  let ?body = "\<lambda>i t. and_then (deref t val) (\<lambda>r.
                 and_then (data_get t this i) (\<lambda>l.
                 and_then (divide_T l r) (\<lambda>q. data_set t this i q)))"
  let ?f = "\<lambda>i. d ! i div r"
  have "for_loop 0 (length d) ?body s = Inr (s(this \<mapsto> map ?f [0..<length d]))"
  proof (rule pointwise_loop[where s = s and this = this and d = d and f = ?f, OF sd])
    fix j t d'
    assume j: "j < length d" and w: "written s this d ?f j t" and d': "t this = Some d'"
    have "deref t val = Inr r" using deref_written[OF w nal] dv by simp
    moreover have "j < length d'" "d' ! j = d ! j" using w d' j by (auto simp: written_def)
    ultimately show "?body j t = Inr (t(this \<mapsto> d'[j := ?f j]))"
      using nz d' by (simp add: data_set_Some data_get_Some divide_T_def)
  qed
  moreover have "map ?f [0..<length d] = map (\<lambda>x. x div r) d"
    by (rule nth_equalityI) simp_all
  ultimately show ?thesis using sd by (simp add: op_div_assign_def)
qed

lemma std_fill_total:
  assumes sd: "s this = Some d"
    and dv: "deref s val = Inr v"
  shows "std_fill s this val = Inr (s(this \<mapsto> replicate (length d) v))"
proof -
  let ?body = "\<lambda>i t. and_then (deref t val) (\<lambda>v. data_set t this i v)"
  let ?f = "\<lambda>i::nat. v"
  have "for_loop 0 (length d) ?body s = Inr (s(this \<mapsto> map ?f [0..<length d]))"
  proof (rule pointwise_loop[where s = s and this = this and d = d and f = ?f, OF sd])
    fix j t d'
    assume j: "j < length d" and w: "written s this d ?f j t" and d': "t this = Some d'"
    have len: "length d' = length d" using w d' by (auto simp: written_def)
    have "deref t val = Inr v"
    proof (cases "stored_in val this")
      case False
      then show ?thesis using deref_written[OF w False] dv by simp
    next
      case True
      then obtain k where val: "val = Elem this k" by (cases val) auto
      with dv sd have k: "k < length d" "d ! k = v"
        by (auto simp: data_get_def split: if_splits)
      have "d' ! k = v"
      proof (cases "k < j")
        case True
        then show ?thesis using w d' by (auto simp: written_def)
      next
        case False
        then have "d' ! k = d ! k" using w d' k by (auto simp: written_def)
        then show ?thesis using k by simp
      qed
      then show ?thesis using val d' k len by (simp add: data_get_def)
    qed
    then show "?body j t = Inr (t(this \<mapsto> d'[j := ?f j]))"
      using d' j len by (simp add: data_set_Some)
  qed
  moreover have "map ?f [0..<length d] = replicate (length d) v"
    by (simp add: map_replicate_const)
  ultimately show ?thesis using sd by (simp add: std_fill_def)
qed

text \<open>
  Claim C3, as stated, fails on the code. \<^verbatim>\<open>operator/=\<close> is declared for \<^verbatim>\<open>const T&\<close> only: with
  \<open>a = (4,6,8)\<close> and \<open>b = (2,3,4)\<close> the call \<open>a /= b\<close> is ill-formed and does not yield
  \<open>(2,2,2)\<close>; a \<^verbatim>\<open>scalar<T>\<close> wrapper and an expression are rejected in the same way. The value
  is read through the reference in every iteration: \<open>a /= a[0]\<close> leaves \<open>(1,6,8)\<close>.
\<close>

theorem div_assign_counterexample:
  "op_div_assign [0 \<mapsto> [4, 6, 8 :: int], 1 \<mapsto> [2, 3, 4]] 0 (Indexable (Vector 1)) = Inl IllFormed
   \<and> op_div_assign [0 \<mapsto> [4, 6, 8 :: int], 1 \<mapsto> [2, 3, 4]] 0 (Indexable (Vector 1))
       \<noteq> Inr (0, [0 \<mapsto> [2, 2, 2], 1 \<mapsto> [2, 3, 4]])
   \<and> op_div_assign [0 \<mapsto> [4, 6, 8 :: int]] 0 (Indexable (Scalar 2)) = Inl IllFormed
   \<and> op_div_assign [0 \<mapsto> [4, 6, 8 :: int]] 0 (Indexable (Nested (op_mul_scalar 0 1))) = Inl IllFormed
   \<and> op_div_assign [0 \<mapsto> [4, 6, 8 :: int]] 0 (Plain (Elem 0 0)) = Inr (0, [0 \<mapsto> [1, 6, 8]])"
  by (simp add: op_div_assign_def for_loop.simps eval_defs)

text \<open>
  Claim C3, amended. The compound update \<open>/=\<close> takes one plain value of type \<^verbatim>\<open>T\<close>; a vector,
  a scalar wrapper or an expression is rejected at compile time. For a non-zero value
  that is not stored in the updated vector itself, it replaces every element by that
  element divided by the value, changes no other vector and returns a reference to the
  updated vector; for \<open>a = (4,6,8)\<close>, after \<open>a /= 2\<close> the vector is \<open>(2,3,4)\<close>.
\<close>

theorem div_assign_value:
  fixes s :: "'a::{zero,divide} store"
  assumes "s a = Some d" and "\<not> stored_in val a" and "deref s val = Inr r" and "r \<noteq> 0"
  shows "op_div_assign s a (Plain val) = Inr (a, s(a \<mapsto> map (\<lambda>x. x div r) d))
       \<and> op_div_assign s a (Indexable rhs) = Inl IllFormed"
  using div_assign_total[OF assms] by (simp add: op_div_assign_def)

theorem div_assign_value_witness:
  "op_div_assign [0 \<mapsto> [4, 6, 8 :: int]] 0 (Plain (Temp 2)) = Inr (0, [0 \<mapsto> [2, 3, 4]])"
proof -
  let ?s = "[(0::vname) \<mapsto> [4, 6, 8 :: int]]"
  have a: "?s 0 = Some [4, 6, 8]" and b: "\<not> stored_in (Temp (2::int)) 0"
    and c: "deref ?s (Temp 2) = Inr 2" and d: "(2::int) \<noteq> 0" by simp_all
  from div_assign_value[of ?s 0 "[4, 6, 8]" "Temp 2" 2, OF a b c d]
  show ?thesis by simp
qed

text \<open>
  Claim C9. Assigning a plain value to a vector (\<open>v = value\<close>) sets every one of the \<open>N\<close>
  elements of \<open>v\<close> to the value the argument has when the assignment starts, and leaves
  the length \<open>N\<close> and every other vector unchanged. This also holds when the argument is
  a reference to an element of \<open>v\<close> itself.
\<close>

theorem assign_value_fills:
  assumes "s this = Some d" and "deref s val = Inr v"
  shows "op_assign_value s this val = Inr (s(this \<mapsto> replicate (length d) v))"
  using std_fill_total[OF assms] by (simp add: op_assign_value_def)

theorem assign_value_fills_witness:
  "op_assign_value [0 \<mapsto> [1, 2, 3 :: int]] 0 (Temp 7) = Inr [0 \<mapsto> [7, 7, 7]]
   \<and> op_assign_value [0 \<mapsto> [1, 2, 3 :: int]] 0 (Elem 0 1) = Inr [0 \<mapsto> [2, 2, 2]]"
proof -
  let ?s = "[(0::vname) \<mapsto> [1, 2, 3 :: int]]"
  have a: "?s 0 = Some [1, 2, 3]" and b: "deref ?s (Temp 7) = Inr 7"
    and c: "deref ?s (Elem 0 1) = Inr 2" by (simp_all add: data_get_def)
  from assign_value_fills[of ?s 0 "[1, 2, 3]" "Temp 7" 7, OF a b]
    assign_value_fills[of ?s 0 "[1, 2, 3]" "Elem 0 1" 2, OF a c]
  show ?thesis by (simp add: numeral_3_eq_3)
qed

section \<open>Lengths, faults and the frame of an evaluation\<close>

lemma for_loop_fails:
  assumes "for_loop i n body s = Inl err" and "I i s"
    and step: "\<And>j u u'. i \<le> j \<Longrightarrow> j < n \<Longrightarrow> I j u \<Longrightarrow> body j u = Inr u' \<Longrightarrow> I (Suc j) u'"
  shows "\<exists>j u. i \<le> j \<and> j < n \<and> I j u \<and> body j u = Inl err"
  using assms
proof (induction "n - i" arbitrary: i s)
  case 0
  then show ?case by (simp add: for_loop_done)
next
  case (Suc k)
  then have lt: "i < n" by simp
  show ?case
  proof (cases "body i s")
    case (Inl e)
    with Suc.prems(1) lt have "e = err" by (simp add: for_loop_step)
    with Inl lt Suc.prems(2) show ?thesis by blast
  next
    case (Inr s')
    with Suc.prems(1) lt have run: "for_loop (Suc i) n body s' = Inl err"
      by (simp add: for_loop_step)
    have I': "I (Suc i) s'" using Suc.prems(3)[OF le_refl lt Suc.prems(2) Inr] .
    have "\<exists>j u. Suc i \<le> j \<and> j < n \<and> I j u \<and> body j u = Inl err"
    proof (rule Suc.hyps(1)[OF _ run I'])
      show "k = n - Suc i" using Suc.hyps(2) by simp
      show "\<And>j u u'. Suc i \<le> j \<Longrightarrow> j < n \<Longrightarrow> I j u \<Longrightarrow> body j u = Inr u' \<Longrightarrow> I (Suc j) u'"
        using Suc.prems(3) by simp
    qed
    then show ?thesis by (meson Suc_leD)
  qed
qed

lemma op_index_Inr:
  "op_index s v i = Inr y \<Longrightarrow> \<exists>d. s v = Some d \<and> i < length d"
  by (cases "s v") (auto simp: op_index_None op_index_Some split: if_splits)

lemma index_Inr_bounds:
  fixes s :: "'a::{zero,plus,minus,times,divide} store"
  shows "index_operand s x i = Inr y \<Longrightarrow> \<forall>v\<in>vectors_of x. \<exists>d. s v = Some d \<and> i < length d"
    and "index_expr s e i = Inr z \<Longrightarrow> \<forall>v\<in>vectors_of_expr e. \<exists>d. s v = Some d \<and> i < length d"
proof (induction x and e arbitrary: y and z)
  case (Vector v)
  then show ?case by (auto dest: op_index_Inr)
next
  case (Scalar a)
  then show ?case by simp
next
  case (Nested e)
  then show ?case by simp
next
  case (Expr l bop r)
  from Expr.prems obtain a b where "index_operand s l i = Inr a" "index_operand s r i = Inr b"
    by (auto simp: and_then_Inr_iff)
  with Expr.IH show ?case by auto
qed

lemma apply_op_Inl: "apply_op bop x y = Inl err \<Longrightarrow> err = DivisionByZero"
  by (cases bop) (auto simp: divide_T_def split: if_splits)

lemma index_in_range:
  fixes s :: "'a::{zero,plus,minus,times,divide} store"
  shows "index_operand s x i = Inl err \<Longrightarrow>
           \<forall>v\<in>vectors_of x. \<exists>d. s v = Some d \<and> i < length d \<Longrightarrow> err = DivisionByZero"
    and "index_expr s e i = Inl err \<Longrightarrow>
           \<forall>v\<in>vectors_of_expr e. \<exists>d. s v = Some d \<and> i < length d \<Longrightarrow> err = DivisionByZero"
proof (induction x and e)
  case (Vector v)
  then show ?case by (auto simp: op_index_Some)
next
  case (Scalar a)
  then show ?case by simp
next
  case (Nested e)
  then show ?case by simp
next
  case (Expr l bop r)
  from Expr.prems(1) consider
    "index_operand s l i = Inl err"
    | a where "index_operand s l i = Inr a" "index_operand s r i = Inl err"
    | a b where "index_operand s l i = Inr a" "index_operand s r i = Inr b" "apply_op bop a b = Inl err"
    by (auto simp: and_then_Inl_iff)
  then show ?case
  proof cases
    case 1
    then show ?thesis using Expr.IH(1) Expr.prems(2) by simp
  next
    case 2
    then show ?thesis using Expr.IH(2) Expr.prems(2) by simp
  next
    case 3
    then show ?thesis by (simp add: apply_op_Inl)
  qed
qed

lemma index_run_time:
  fixes s :: "'a::{zero,plus,minus,times,divide} store"
  shows "index_operand s x i = Inl err \<Longrightarrow> \<not> compile_time err"
    and "index_expr s e i = Inl err \<Longrightarrow> \<not> compile_time err"
proof (induction x and e)
  case (Vector v)
  then show ?case
    by (cases "s v") (auto simp: op_index_None op_index_Some split: if_splits)
next
  case (Scalar a)
  then show ?case by simp
next
  case (Nested e)
  then show ?case by simp
next
  case (Expr l bop r)
  from Expr.prems consider
    "index_operand s l i = Inl err"
    | "index_operand s r i = Inl err"
    | a b :: 'a where "apply_op bop a b = Inl err"
    by (auto simp: and_then_Inl_iff)
  then show ?case
  proof cases
    case 1
    then show ?thesis using Expr.IH(1) by simp
  next
    case 2
    then show ?thesis using Expr.IH(2) by simp
  next
    case 3
    then show ?thesis by (auto dest: apply_op_Inl)
  qed
qed

lemma data_set_Inl: "data_set s this i v = Inl err \<Longrightarrow> \<not> compile_time err"
  by (auto simp: data_set_def split: option.splits if_splits)

text \<open>A failing materialization fails in one of its steps, taken in a state that agrees
  with the initial store at the index of that step.\<close>

lemma materialize_fails:
  fixes s :: "'a::{zero,plus,minus,times,divide} store"
  assumes sd: "s this = Some d" and run: "materialize s this e = Inl err"
  shows "\<exists>j<length d. index_expr s e j = Inl err"
proof -
  define f where "f i = projr (index_expr s e i)" for i
  let ?body = "\<lambda>i t. and_then (index_expr t e i) (\<lambda>v. data_set t this i v)"
  let ?I = "\<lambda>j u. written s this d f j u"
  from run sd have loop: "for_loop 0 (length d) ?body s = Inl err"
    by (simp add: materialize_def)
  have "\<exists>j u. 0 \<le> j \<and> j < length d \<and> ?I j u \<and> ?body j u = Inl err"
  proof (rule for_loop_fails[where I = ?I, OF loop])
    show "?I 0 s" using sd by (simp add: written_def)
    fix j u u'
    assume j: "j < length d" and w: "?I j u" and b: "?body j u = Inr u'"
    from w obtain d' where d': "u this = Some d'" by (auto simp: written_def)
    have eq: "index_expr u e j = index_expr s e j"
      by (rule index_agree) (rule written_agree[of s this d, OF sd w])
    from b obtain v where v: "index_expr u e j = Inr v" "data_set u this j v = Inr u'"
      by (auto simp: and_then_Inr_iff)
    from v(1) eq have "v = f j" by (simp add: f_def)
    moreover from v(2) d' have "u' = u(this \<mapsto> d'[j := v])" by (auto dest: data_set_Inr)
    ultimately show "?I (Suc j) u'" using written_step[OF w j d'] by simp
  qed
  then obtain j u where j: "j < length d" and w: "?I j u" and b: "?body j u = Inl err"
    by blast
  from w obtain d' where d': "u this = Some d'" "length d' = length d"
    by (auto simp: written_def)
  have eq: "index_expr u e j = index_expr s e j"
    by (rule index_agree) (rule written_agree[of s this d, OF sd w])
  have "data_set u this j v \<noteq> Inl err" for v
    using d' j by (simp add: data_set_Some)
  with b eq have "index_expr s e j = Inl err" by (auto simp: and_then_Inl_iff)
  with j show ?thesis by blast
qed

lemma assign_expr_Inr:
  fixes s :: "'a::{zero,plus,minus,times,divide} store"
  assumes "op_assign_expr s dst e = Inr (r, t)"
  shows "r = dst \<and> (\<exists>d d'. s dst = Some d \<and> length d' = length d \<and> t = s(dst \<mapsto> d') \<and>
           (\<forall>i<length d. index_expr s e i = Inr (d' ! i)))"
proof -
  from assms have m: "materialize s dst e = Inr t" and r: "r = dst"
    by (auto simp: op_assign_expr_def and_then_Inr_iff)
  from m obtain d where d: "s dst = Some d"
    by (cases "s dst") (auto simp: materialize_def)
  from materialize_partial[of s dst d, OF d m] d r show ?thesis by blast
qed

lemma from_expr_Inr:
  fixes s :: "'a::{zero,plus,minus,times,divide} store"
  assumes "fast_vector_from_expr Rows junk s new e = Inr t"
  shows "0 < Rows \<and> (\<exists>d'. length d' = Rows \<and> t = s(new \<mapsto> d'))"
proof -
  let ?s1 = "s(new \<mapsto> map junk [0..<Rows])"
  from assms have R: "0 < Rows" and m: "materialize ?s1 new e = Inr t"
    by (auto simp: fast_vector_from_expr_def allocate_def and_then_Inr_iff split: if_splits)
  have s1: "?s1 new = Some (map junk [0..<Rows])" by simp
  from materialize_partial[of ?s1 new "map junk [0..<Rows]", OF s1 m]
  obtain d' where "length d' = Rows" "t = ?s1(new \<mapsto> d')" by auto
  then show ?thesis using R by auto
qed

lemma materialize_in_range:
  fixes s :: "'a::{zero,plus,minus,times,divide} store"
  assumes sd: "s dst = Some dd"
    and len: "\<forall>v\<in>vectors_of_expr e. \<exists>d. s v = Some d \<and> length dd \<le> length d"
  shows "(\<exists>t. materialize s dst e = Inr t) \<or> materialize s dst e = Inl DivisionByZero"
proof (cases "materialize s dst e")
  case (Inr t)
  then show ?thesis by simp
next
  case (Inl err)
  from materialize_fails[of s dst dd, OF sd Inl]
  obtain j where j: "j < length dd" "index_expr s e j = Inl err" by blast
  have "\<forall>v\<in>vectors_of_expr e. \<exists>d. s v = Some d \<and> j < length d"
    using len j(1) by fastforce
  from index_in_range(2)[OF j(2) this] Inl show ?thesis by simp
qed

text \<open>
  Claim C2, as stated, fails on the code. With \<open>a\<close> of length 3, \<open>b\<close> of length 2 and \<open>c\<close> of
  length 3, the statement \<open>c = a + b\<close> is accepted: \<^verbatim>\<open>operator+\<close> and the assignment from an
  expression are templates over any operand type and compare no lengths. The loop runs
  to the length of \<open>c\<close> and indexes \<open>b\<close> at 2, beyond its length: a run-time fault, not a
  compile-time rejection.
\<close>

theorem length_check_counterexample:
  "op_assign_expr [0 \<mapsto> [1, 2, 3 :: int], 1 \<mapsto> [4, 5], 2 \<mapsto> [0, 0, 0]] 2 (op_plus 0 (Vector 1))
     = Inl OutOfBounds
   \<and> \<not> compile_time OutOfBounds
   \<and> index_operand [0 \<mapsto> [1, 2, 3 :: int], 1 \<mapsto> [4, 5], 2 \<mapsto> [0, 0, 0]] (Vector 1) 2
     = Inl OutOfBounds"
  by (simp add: op_assign_expr_def materialize_def for_loop.simps op_plus_def eval_defs)

text \<open>
  Claim C2, amended. Combining operands of different lengths and assigning an expression to
  a vector of another length are accepted at compile time; no failure of such an assignment
  is a compile-time rejection. The evaluation indexes no operand beyond its length when
  every vector the expression reads is at least as long as the destination (the assignment
  or construction then returns, unless a division by zero occurs). When some vector it
  reads is shorter than the destination, the assignment has no result.
\<close>

theorem length_discipline:
  fixes s :: "'a::{zero,plus,minus,times,divide} store"
  assumes sd: "s dst = Some dd"
  shows "(\<forall>err. op_assign_expr s dst e = Inl err \<longrightarrow> \<not> compile_time err)
       \<and> ((\<forall>v\<in>vectors_of_expr e. \<exists>d. s v = Some d \<and> length dd \<le> length d) \<longrightarrow>
            (\<exists>t. op_assign_expr s dst e = Inr (dst, t))
            \<or> op_assign_expr s dst e = Inl DivisionByZero)
       \<and> ((\<exists>v\<in>vectors_of_expr e. \<exists>d. s v = Some d \<and> length d < length dd) \<longrightarrow>
            (\<forall>r t. op_assign_expr s dst e \<noteq> Inr (r, t)))
       \<and> (0 < Rows \<and> new \<notin> vectors_of_expr e
            \<and> (\<forall>v\<in>vectors_of_expr e. \<exists>d. s v = Some d \<and> Rows \<le> length d) \<longrightarrow>
            (\<exists>t. fast_vector_from_expr Rows junk s new e = Inr t)
            \<or> fast_vector_from_expr Rows junk s new e = Inl DivisionByZero)"
proof (intro conjI allI impI)
  fix err
  assume "op_assign_expr s dst e = Inl err"
  then have "materialize s dst e = Inl err"
    by (auto simp: op_assign_expr_def and_then_Inl_iff)
  from materialize_fails[of s dst dd, OF sd this]
  show "\<not> compile_time err" by (auto dest: index_run_time(2))
next
  assume "\<forall>v\<in>vectors_of_expr e. \<exists>d. s v = Some d \<and> length dd \<le> length d"
  from materialize_in_range[of s dst dd, OF sd this]
  show "(\<exists>t. op_assign_expr s dst e = Inr (dst, t)) \<or> op_assign_expr s dst e = Inl DivisionByZero"
    by (auto simp: op_assign_expr_def)
next
  fix r t
  assume "\<exists>v\<in>vectors_of_expr e. \<exists>d. s v = Some d \<and> length d < length dd"
  then obtain v d where v: "v \<in> vectors_of_expr e" "s v = Some d" "length d < length dd"
    by blast
  show "op_assign_expr s dst e \<noteq> Inr (r, t)"
  proof
    assume "op_assign_expr s dst e = Inr (r, t)"
    from assign_expr_Inr[OF this] sd
    have "\<forall>i<length dd. \<exists>y. index_expr s e i = Inr y" by auto
    with v(3) obtain y where "index_expr s e (length d) = Inr y" by blast
    from index_Inr_bounds(2)[OF this] v(1,2) show False by auto
  qed
next
  assume h: "0 < Rows \<and> new \<notin> vectors_of_expr e
            \<and> (\<forall>v\<in>vectors_of_expr e. \<exists>d. s v = Some d \<and> Rows \<le> length d)"
  let ?d = "map junk [0..<Rows]"
  let ?s1 = "s(new \<mapsto> ?d)"
  have s1: "?s1 new = Some ?d" by simp
  have "\<forall>v\<in>vectors_of_expr e. \<exists>d. ?s1 v = Some d \<and> length ?d \<le> length d"
    using h by auto
  from materialize_in_range[of ?s1 new ?d, OF s1 this] h
  show "(\<exists>t. fast_vector_from_expr Rows junk s new e = Inr t)
            \<or> fast_vector_from_expr Rows junk s new e = Inl DivisionByZero"
    by (simp add: fast_vector_from_expr_def allocate_def)
qed

theorem length_discipline_witness:
  "(\<exists>t. op_assign_expr [0 \<mapsto> [1, 2, 3 :: int], 1 \<mapsto> [4, 5, 6], 2 \<mapsto> [0, 0]] 2 (op_plus 0 (Vector 1))
          = Inr (2, t))
   \<or> op_assign_expr [0 \<mapsto> [1, 2, 3 :: int], 1 \<mapsto> [4, 5, 6], 2 \<mapsto> [0, 0]] 2 (op_plus 0 (Vector 1))
          = Inl DivisionByZero"
proof -
  let ?s = "[(0::vname) \<mapsto> [1, 2, 3 :: int], 1 \<mapsto> [4, 5, 6], 2 \<mapsto> [0, 0]]"
  let ?e = "op_plus 0 (Vector 1) :: int fast_vector_expr"
  have a: "?s 2 = Some [0, 0]" by simp
  have b: "\<forall>v\<in>vectors_of_expr ?e. \<exists>d. ?s v = Some d \<and> length [0, 0 :: int] \<le> length d"
    by (simp add: op_plus_def)
  from length_discipline[of ?s 2 "[0, 0]" ?e, OF a] b show ?thesis by blast
qed

text \<open>
  Claim C8. Evaluating an expression never mutates its operands. The query \<open>e[i]\<close> is a
  \<^verbatim>\<open>const\<close> member that only reads, and is embedded as a function from the store to a value.
  Materializing \<open>e\<close> into a vector, by assignment or by construction, leaves every vector
  other than the destination as it was; when the destination is not among the operands
  of \<open>e\<close>, every operand is unchanged and \<open>e\<close> has the same value at every index afterwards.
\<close>

theorem evaluation_preserves_operands:
  fixes s :: "'a::{zero,plus,minus,times,divide} store"
  shows "(op_assign_expr s dst e = Inr (r, t) \<longrightarrow>
            (\<forall>v. v \<noteq> dst \<longrightarrow> t v = s v) \<and>
            (dst \<notin> vectors_of_expr e \<longrightarrow>
               (\<forall>v\<in>vectors_of_expr e. t v = s v) \<and> (\<forall>i. index_expr t e i = index_expr s e i)))
       \<and> (fast_vector_from_expr Rows junk s new e = Inr t' \<longrightarrow> (\<forall>v. v \<noteq> new \<longrightarrow> t' v = s v))"
proof (intro conjI impI allI ballI)
  fix v
  assume "op_assign_expr s dst e = Inr (r, t)" and "v \<noteq> dst"
  then show "t v = s v" by (auto dest!: assign_expr_Inr)
next
  fix v
  assume "op_assign_expr s dst e = Inr (r, t)" and "dst \<notin> vectors_of_expr e"
    and "v \<in> vectors_of_expr e"
  then show "t v = s v" by (auto dest!: assign_expr_Inr)
next
  fix i
  assume "op_assign_expr s dst e = Inr (r, t)" and fresh: "dst \<notin> vectors_of_expr e"
  then obtain d' where "t = s(dst \<mapsto> d')" by (auto dest!: assign_expr_Inr)
  then show "index_expr t e i = index_expr s e i" using index_fresh[OF fresh] by simp
next
  fix v
  assume "fast_vector_from_expr Rows junk s new e = Inr t'" and "v \<noteq> new"
  then show "t' v = s v" by (auto dest!: from_expr_Inr)
qed

theorem evaluation_preserves_operands_witness:
  "op_assign_expr [0 \<mapsto> [1, 1, 1 :: int], 1 \<mapsto> [1, 1, 1], 2 \<mapsto> [0, 0, 0]] 2
      (expr_mul_scalar (op_plus 0 (Vector 1)) 2)
     = Inr (2, [0 \<mapsto> [1, 1, 1], 1 \<mapsto> [1, 1, 1], 2 \<mapsto> [4, 4, 4]])
   \<and> [0 \<mapsto> [1, 1, 1 :: int], 1 \<mapsto> [1, 1, 1], 2 \<mapsto> [4, 4, 4]] (0::vname)
       = [0 \<mapsto> [1, 1, 1 :: int], 1 \<mapsto> [1, 1, 1], 2 \<mapsto> [0, 0, 0]] (0::vname)
   \<and> [0 \<mapsto> [1, 1, 1 :: int], 1 \<mapsto> [1, 1, 1], 2 \<mapsto> [4, 4, 4]] (1::vname)
       = [0 \<mapsto> [1, 1, 1 :: int], 1 \<mapsto> [1, 1, 1], 2 \<mapsto> [0, 0, 0]] (1::vname)"
proof -
  let ?s = "[(0::vname) \<mapsto> [1, 1, 1 :: int], 1 \<mapsto> [1, 1, 1], 2 \<mapsto> [0, 0, 0]]"
  let ?t = "[(0::vname) \<mapsto> [1, 1, 1 :: int], 1 \<mapsto> [1, 1, 1], 2 \<mapsto> [4, 4, 4]]"
  let ?e = "expr_mul_scalar (op_plus 0 (Vector 1)) 2 :: int fast_vector_expr"
  have run: "op_assign_expr ?s 2 ?e = Inr (2, ?t)"
    by (simp add: op_assign_expr_def materialize_def for_loop.simps expr_mul_scalar_def
        op_plus_def eval_defs)
  have ne: "(0::vname) \<noteq> 2" "(1::vname) \<noteq> 2" by simp_all
  from evaluation_preserves_operands[of ?s 2 ?e 2 ?t] run ne
  have "?t 0 = ?s 0" "?t 1 = ?s 1" by blast+
  with run show ?thesis by blast
qed

section \<open>Every vector is non-empty\<close>

lemma data_set_shape:
  "data_set u this j x = Inr u' \<Longrightarrow> map_option length (u' v) = map_option length (u v)"
  by (auto dest!: data_set_Inr)

lemma loop_shape:
  assumes run: "for_loop 0 n body s = Inr t"
    and body: "\<And>j u u'. body j u = Inr u' \<Longrightarrow> \<exists>x. data_set u this j x = Inr u'"
  shows "map_option length (t v) = map_option length (s v)"
proof -
  let ?I = "\<lambda>(j::nat) u. \<forall>v. map_option length (u v) = map_option length (s v)"
  have "?I n t"
  proof (rule for_loop_partial[where I = ?I, OF run])
    show "?I 0 s" by simp
    show "0 \<le> n" by simp
    fix j u u'
    assume I: "?I j u" and b: "body j u = Inr u'"
    from body[OF b] obtain x where "data_set u this j x = Inr u'" by blast
    then have "map_option length (u' v) = map_option length (u v)" for v
      by (rule data_set_shape)
    with I show "?I (Suc j) u'" by simp
  qed
  then show ?thesis by simp
qed

lemma std_fill_shape:
  assumes "std_fill s this val = Inr t"
  shows "map_option length (t v) = map_option length (s v)"
proof -
  from assms obtain n where
    "for_loop 0 n (\<lambda>i t. and_then (deref t val) (\<lambda>v. data_set t this i v)) s = Inr t"
    by (auto simp: std_fill_def and_then_Inr_iff)
  then show ?thesis
    by (rule loop_shape) (auto simp: and_then_Inr_iff)
qed

lemma materialize_shape:
  fixes s :: "'a::{zero,plus,minus,times,divide} store"
  assumes "materialize s this e = Inr t"
  shows "map_option length (t v) = map_option length (s v)"
proof -
  from assms obtain n where
    "for_loop 0 n (\<lambda>i t. and_then (index_expr t e i) (\<lambda>v. data_set t this i v)) s = Inr t"
    by (auto simp: materialize_def and_then_Inr_iff)
  then show ?thesis
    by (rule loop_shape) (auto simp: and_then_Inr_iff)
qed

lemma div_assign_shape:
  fixes s :: "'a::{zero,divide} store"
  assumes "op_div_assign s this a = Inr (r, t)"
  shows "map_option length (t v) = map_option length (s v)"
proof (cases a)
  case (Indexable rhs)
  with assms show ?thesis by (simp add: op_div_assign_def)
next
  case (Plain val)
  with assms obtain n where
    "for_loop 0 n (\<lambda>i t. and_then (deref t val) (\<lambda>r.
         and_then (data_get t this i) (\<lambda>l.
         and_then (divide_T l r) (\<lambda>q. data_set t this i q)))) s = Inr t"
    by (auto simp: op_div_assign_def and_then_Inr_iff)
  then show ?thesis
    by (rule loop_shape) (auto simp: and_then_Inr_iff)
qed

lemma add_assign_shape:
  fixes s :: "'a::{zero,plus,minus,times,divide} store"
  assumes "op_add_assign s this a = Inr (r, t)"
  shows "map_option length (t v) = map_option length (s v)"
proof (cases a)
  case (Plain val)
  with assms show ?thesis by (simp add: op_add_assign_def)
next
  case (Indexable rhs)
  with assms obtain n where
    "for_loop 0 n (\<lambda>i t. and_then (index_operand t rhs i) (\<lambda>r.
         and_then (data_get t this i) (\<lambda>l. data_set t this i (l + r)))) s = Inr t"
    by (auto simp: op_add_assign_def and_then_Inr_iff)
  then show ?thesis
    by (rule loop_shape) (auto simp: and_then_Inr_iff)
qed

lemma shape_nonempty:
  assumes "\<And>v. map_option length (t v) = map_option length (s v)"
    and "\<And>v d. s v = Some d \<Longrightarrow> 0 < length d"
    and "t v = Some d"
  shows "0 < length d"
proof -
  from assms(1)[of v] assms(3) obtain d0 where "s v = Some d0" "length d0 = length d"
    by (cases "s v") auto
  with assms(2) show ?thesis by fastforce
qed

lemma allocate_nonempty:
  assumes "allocate Rows junk s this = Inr t"
    and "\<And>v d. s v = Some d \<Longrightarrow> 0 < length d"
    and "t v = Some d"
  shows "0 < length d"
proof -
  from assms(1) have R: "0 < Rows" and t: "t = s(this \<mapsto> map junk [0..<Rows])"
    by (auto simp: allocate_def split: if_splits)
  show ?thesis
  proof (cases "v = this")
    case True
    with t assms(3) have "d = map junk [0..<Rows]" by simp
    with R show ?thesis by simp
  next
    case False
    with t assms(3) have "s v = Some d" by simp
    then show ?thesis by (rule assms(2))
  qed
qed

lemma moved_nonempty:
  assumes t: "t = (s(rhs \<mapsto> map residue d0))(this \<mapsto> d0)" and d0: "s rhs = Some d0"
    and ne: "\<And>v d. s v = Some d \<Longrightarrow> 0 < length d"
    and tv: "t v = Some d"
  shows "0 < length d"
proof -
  have pos: "0 < length d0" using d0 by (rule ne)
  consider "v = this" | "v \<noteq> this" "v = rhs" | "v \<noteq> this" "v \<noteq> rhs" by blast
  then show ?thesis
  proof cases
    case 1
    with t tv have "d = d0" by simp
    with pos show ?thesis by simp
  next
    case 2
    with t tv have "d = map residue d0" by simp
    with pos show ?thesis by simp
  next
    case 3
    with t tv have "s v = Some d" by simp
    then show ?thesis by (rule ne)
  qed
qed

lemma reachable_nonempty:
  fixes s :: "'a::{zero,plus,minus,times,divide} store"
  assumes "reachable s"
  shows "s v = Some d \<Longrightarrow> 0 < length d"
  using assms
proof (induction arbitrary: v d rule: reachable.induct)
  case start
  then show ?case by simp
next
  case (construct_default s Rows junk this t)
  from construct_default.hyps(2) have "allocate Rows junk s this = Inr t"
    by (simp add: fast_vector_default_def)
  from this construct_default.IH construct_default.prems show ?case
    by (rule allocate_nonempty)
next
  case (construct_fill s Rows junk this val t)
  from construct_fill.hyps(2) obtain u where u: "allocate Rows junk s this = Inr u"
    "std_fill u this val = Inr t"
    by (auto simp: fast_vector_fill_def and_then_Inr_iff)
  have ne: "\<And>v d. u v = Some d \<Longrightarrow> 0 < length d"
    using allocate_nonempty[OF u(1)] construct_fill.IH by blast
  from std_fill_shape[OF u(2)] ne construct_fill.prems show ?case
    by (rule shape_nonempty)
next
  case (construct_from_expr s Rows junk this e t)
  from construct_from_expr.hyps(2) obtain u where u: "allocate Rows junk s this = Inr u"
    "materialize u this e = Inr t"
    by (auto simp: fast_vector_from_expr_def and_then_Inr_iff)
  have ne: "\<And>v d. u v = Some d \<Longrightarrow> 0 < length d"
    using allocate_nonempty[OF u(1)] construct_from_expr.IH by blast
  from materialize_shape[OF u(2)] ne construct_from_expr.prems show ?case
    by (rule shape_nonempty)
next
  case (construct_move s Rows residue this rhs t)
  from construct_move.hyps(2) obtain d0 where
    "t = (s(rhs \<mapsto> map residue d0))(this \<mapsto> d0)" "s rhs = Some d0"
    by (auto simp: fast_vector_move_def split: if_splits option.splits)
  from this construct_move.IH construct_move.prems show ?case
    by (rule moved_nonempty)
next
  case (assign_expr s this e r t)
  from assign_expr.hyps(2) have "materialize s this e = Inr t"
    by (auto simp: op_assign_expr_def and_then_Inr_iff)
  from materialize_shape[OF this] assign_expr.IH assign_expr.prems show ?case
    by (rule shape_nonempty)
next
  case (assign_move s residue this rhs r t)
  from assign_move.hyps(2) obtain d0 where
    "t = (s(rhs \<mapsto> map residue d0))(this \<mapsto> d0)" "s rhs = Some d0"
    by (auto simp: op_assign_move_def split: if_splits option.splits)
  from this assign_move.IH assign_move.prems show ?case
    by (rule moved_nonempty)
next
  case (assign_value s this val t)
  from assign_value.hyps(2) have "std_fill s this val = Inr t"
    by (simp add: op_assign_value_def)
  from std_fill_shape[OF this] assign_value.IH assign_value.prems show ?case
    by (rule shape_nonempty)
next
  case (div_assign s this a r t)
  from div_assign_shape[OF div_assign.hyps(2)] div_assign.IH div_assign.prems show ?case
    by (rule shape_nonempty)
next
  case (add_assign s this a r t)
  from add_assign_shape[OF add_assign.hyps(2)] add_assign.IH add_assign.prems show ?case
    by (rule shape_nonempty)
next
  case (element_write s this i x t)
  from element_write.hyps(2) have "data_set s this i x = Inr t"
    by (auto simp: op_index_write_def and_then_Inr_iff)
  from data_set_shape[OF this] element_write.IH element_write.prems show ?case
    by (rule shape_nonempty)
next
  case (destroy s this)
  from destroy.prems have "s v = Some d" by (simp split: if_splits)
  then show ?case by (rule destroy.IH)
qed

text \<open>
  Claim C10. Every vector is non-empty. Each constructor called with \<open>Rows = 0\<close> is rejected
  at compile time by the static assertion of the class, and in every store a program can
  reach, through any sequence of constructions, assignments, compound updates, element
  writes and destructions, every vector that exists has at least one element.
\<close>

theorem vectors_nonempty:
  fixes s :: "'a::{zero,plus,minus,times,divide} store"
  shows "(reachable s \<and> s v = Some d \<longrightarrow> 1 \<le> length d)
       \<and> fast_vector_default 0 junk u this = Inl StaticAssertFailed
       \<and> fast_vector_fill 0 junk u this val = Inl StaticAssertFailed
       \<and> fast_vector_from_expr 0 junk u this e = Inl StaticAssertFailed
       \<and> fast_vector_move 0 residue u this rhs = Inl StaticAssertFailed
       \<and> compile_time StaticAssertFailed"
  using reachable_nonempty[of s v d]
  by (auto simp: fast_vector_default_def fast_vector_fill_def fast_vector_from_expr_def
      fast_vector_move_def allocate_def Suc_le_eq)

theorem vectors_nonempty_witness:
  "reachable [0 \<mapsto> [7, 7, 7 :: int]] \<and> 1 \<le> length [7, 7, 7 :: int]"
proof -
  have "fast_vector_fill 3 (\<lambda>_. 0) Map.empty 0 (Temp 7) = Inr [0 \<mapsto> [7, 7, 7 :: int]]"
    by (simp add: fast_vector_fill_def allocate_def std_fill_def for_loop.simps eval_defs
        upt_rec numeral_3_eq_3)
  from reachable.construct_fill[OF reachable.start this]
  have r: "reachable [0 \<mapsto> [7, 7, 7 :: int]]" .
  have "[(0::vname) \<mapsto> [7, 7, 7 :: int]] 0 = Some [7, 7, 7]" by simp
  with vectors_nonempty[of "[0 \<mapsto> [7, 7, 7 :: int]]" 0 "[7, 7, 7]"] r
  show ?thesis by blast
qed

end
